theory Spec2Isabelle
  imports
    Main
    "HOL-Library.Word"
    "HOL-Library.Char_ord"
    "HOL-Library.List_Lexorder"
    "HOL-Library.Multiset"
begin

section \<open>The archive builder of qgrep (src/build.cpp)\<close>

text \<open>
  A shallow embedding of \<^verbatim>\<open>build.cpp\<close>: the \<^verbatim>\<open>Builder\<close> class (chunk accumulation,
  chunk layout, compression, chunk writing), the project-file parser and the file
  selection of \<^verbatim>\<open>buildProject\<close>.

  Conventions.
  \<^item> \<^verbatim>\<open>char\<close> is \<^typ>\<open>char\<close> (eight bits); \<^verbatim>\<open>std::string\<close> and \<^verbatim>\<open>std::vector<char>\<close> are
    \<^typ>\<open>char list\<close>.
  \<^item> \<^verbatim>\<open>uint64_t\<close> is \<^typ>\<open>64 word\<close>. A \<^verbatim>\<open>size_t\<close> that measures objects held in memory at
    the same time (lengths, offsets into one buffer, the number of collected paths) is
    \<^typ>\<open>nat\<close>: such a value is below the size of the address space, so no wrap-around
    is reachable.
  \<^item> An \<^verbatim>\<open>assert\<close> that fails, a \<^verbatim>\<open>fatal\<close> call and a write outside a buffer are
    values of the type \<open>error\<close>; a function that can reach one returns \<open>error + 'a\<close>.
  \<^item> A call that may never return has an \<open>option\<close> result: \<open>None\<close> is the call that does
    not return.
  \<^item> What \<^verbatim>\<open>build.cpp\<close> takes from headers that are not part of the sources
    (\<^verbatim>\<open>format.hpp\<close>, \<^verbatim>\<open>constants.hpp\<close>, \<^verbatim>\<open>fileutil.hpp\<close>, LZ4, RE2) is a parameter.
\<close>

subsection \<open>Data\<close>

datatype error = AssertionFailed | OutOfRange | Fatal

text \<open>\<^verbatim>\<open>Builder::File\<close>.\<close>

record File =
  name :: string
  contents :: "char list"
  fileSize :: "64 word"
  timeStamp :: "64 word"

text \<open>\<^verbatim>\<open>Builder::Chunk\<close>; the constructor sets \<^verbatim>\<open>totalSize\<close> to 0.\<close>

record Chunk =
  files :: "File list"
  totalSize :: nat

definition Chunk_new :: Chunk where
  "Chunk_new = \<lparr>files = [], totalSize = 0\<rparr>"

text \<open>\<^verbatim>\<open>Builder::Statistics\<close>.\<close>

record Statistics =
  st_fileCount :: nat
  st_fileSize :: "64 word"
  st_resultSize :: "64 word"

text \<open>
  Modelled from the spec: \<^verbatim>\<open>ChunkFileHeader\<close> and \<^verbatim>\<open>ChunkHeader\<close> are declared in
  \<^verbatim>\<open>format.hpp\<close>, which is missing. The fields are the ones \<^verbatim>\<open>build.cpp\<close> assigns;
  each holds the assigned value as it is (no narrowing).
\<close>

record ChunkFileHeader =
  nameOffset :: nat
  nameLength :: nat
  dataOffset :: nat
  dataSize :: nat
  h_fileSize :: "64 word"
  h_timeStamp :: "64 word"

record ChunkHeader =
  fileCount :: nat
  uncompressedSize :: nat
  compressedSize :: nat

text \<open>
  The output stream \<^verbatim>\<open>outData\<close> is the sequence of the \<^verbatim>\<open>write\<close> calls made on it:
  the file header (the magic of \<^verbatim>\<open>start\<close>), a chunk header, or a run of bytes.
\<close>

datatype written = WFileHeader | WChunkHeader ChunkHeader | WBytes "char list"

record Builder =
  currentChunk :: Chunk
  outData :: "written list"
  statistics :: Statistics

text \<open>
  The parameters of the builder:
  \<^item> \<open>kChunkSize\<close>: the constant of \<^verbatim>\<open>constants.hpp\<close>;
  \<^item> \<open>entrySize\<close>: \<^verbatim>\<open>sizeof(ChunkFileHeader)\<close>;
  \<^item> \<open>encodeEntry\<close>: the bytes of a \<^verbatim>\<open>ChunkFileHeader\<close> object whose padding is zero;
  \<^item> \<open>LZ4_compressBound n\<close>: the size of the vector built from
    \<^verbatim>\<open>LZ4_compressBound(data.size())\<close> for a buffer of \<open>n\<close> bytes;
  \<^item> \<open>LZ4_compressHC src\<close>: the \<^verbatim>\<open>int\<close> the compressor returns and the bytes it
    stores at the start of the destination.
\<close>

record Params =
  kChunkSize :: nat
  entrySize :: nat
  encodeEntry :: "ChunkFileHeader \<Rightarrow> char list"
  LZ4_compressBound :: "nat \<Rightarrow> nat"
  LZ4_compressHC :: "char list \<Rightarrow> int \<times> char list"

text \<open>
  An input stream that \<^verbatim>\<open>std::ifstream\<close> has opened: the bytes its reads deliver, and how
  they end. After the last byte a read either finds the end of the file (it sets
  \<^verbatim>\<open>eofbit\<close>) or fails (it sets \<^verbatim>\<open>failbit\<close> or \<^verbatim>\<open>badbit\<close> and leaves \<^verbatim>\<open>eofbit\<close> clear), as a
  read from a directory or from a failing device does.
\<close>

datatype ending = EndOfFile | ReadError

record Stream =
  s_bytes :: "char list"
  s_end :: ending

text \<open>
  The file system as the builder sees it: the stream of a file that \<^verbatim>\<open>std::ifstream\<close>
  can open (\<open>None\<close> when it cannot), the result of \<^verbatim>\<open>getFileAttributes\<close> (time stamp
  first, then file size; \<open>None\<close> when it returns false), and whether a path can be
  opened for writing.
\<close>

record FileSystem =
  openRead :: "string \<Rightarrow> Stream option"
  getFileAttributes :: "string \<Rightarrow> (64 word \<times> 64 word) option"
  openWrite :: "string \<Rightarrow> bool"

subsection \<open>Chunk layout: \<^verbatim>\<open>prepareChunkData\<close>\<close>

text \<open>The two summation loops, with the accumulator \<^verbatim>\<open>result\<close>.\<close>

fun nameTotalLoop :: "File list \<Rightarrow> nat \<Rightarrow> nat" where
  "nameTotalLoop [] result = result"
| "nameTotalLoop (f # fs) result = nameTotalLoop fs (result + length (name f))"

fun dataTotalLoop :: "File list \<Rightarrow> nat \<Rightarrow> nat" where
  "dataTotalLoop [] result = result"
| "dataTotalLoop (f # fs) result = dataTotalLoop fs (result + length (contents f))"

definition getChunkNameTotalSize :: "Chunk \<Rightarrow> nat" where
  "getChunkNameTotalSize chunk = nameTotalLoop (files chunk) 0"

definition getChunkDataTotalSize :: "Chunk \<Rightarrow> nat" where
  "getChunkDataTotalSize chunk = dataTotalLoop (files chunk) 0"

text \<open>
  \<^verbatim>\<open>std::copy(src.begin(), src.end(), data.begin() + off)\<close>, and the store through
  \<^verbatim>\<open>reinterpret_cast<ChunkFileHeader*>(&data[0])[i]\<close>: the bytes at
  \<open>[off, off + length src)\<close> are replaced. A destination range that leaves the vector
  is undefined behaviour in the source and \<open>OutOfRange\<close> here.
\<close>

definition copy_to :: "char list \<Rightarrow> nat \<Rightarrow> char list \<Rightarrow> error + char list" where
  "copy_to data off src =
     (if off + length src \<le> length data
      then Inr (take off data @ src @ drop (off + length src) data)
      else Inl OutOfRange)"

text \<open>
  The loop of \<^verbatim>\<open>prepareChunkData\<close> over the files from index \<open>i\<close> on; the state is
  the buffer and the two cursors \<^verbatim>\<open>nameOffset\<close> and \<^verbatim>\<open>dataOffset\<close>.
\<close>

fun layoutLoop ::
  "Params \<Rightarrow> File list \<Rightarrow> nat \<Rightarrow> char list \<times> nat \<times> nat \<Rightarrow> error + (char list \<times> nat \<times> nat)" where
  "layoutLoop P [] i st = Inr st"
| "layoutLoop P (f # fs) i (data, nameOff, dataOff) =
     (case copy_to data nameOff (name f) of
        Inl e \<Rightarrow> Inl e
      | Inr data1 \<Rightarrow>
     (case copy_to data1 dataOff (contents f) of
        Inl e \<Rightarrow> Inl e
      | Inr data2 \<Rightarrow>
     (case copy_to data2 (i * entrySize P)
             (encodeEntry P
               \<lparr>nameOffset = nameOff, nameLength = length (name f),
                dataOffset = dataOff, dataSize = length (contents f),
                h_fileSize = fileSize f, h_timeStamp = timeStamp f\<rparr>) of
        Inl e \<Rightarrow> Inl e
      | Inr data3 \<Rightarrow>
          layoutLoop P fs (Suc i)
            (data3, nameOff + length (name f), dataOff + length (contents f)))))"

text \<open>The state of the loop when it ends: what the final \<^verbatim>\<open>assert\<close> looks at.\<close>

definition layoutCursors :: "Params \<Rightarrow> Chunk \<Rightarrow> error + (char list \<times> nat \<times> nat)" where
  "layoutCursors P chunk =
     (let headerSize = entrySize P * length (files chunk);
          nameSize = getChunkNameTotalSize chunk;
          dataSize = getChunkDataTotalSize chunk;
          totalSize = headerSize + nameSize + dataSize;
          data = replicate totalSize (CHR 0x00)
      in layoutLoop P (files chunk) 0 (data, headerSize, headerSize + nameSize))"

definition prepareChunkData :: "Params \<Rightarrow> Chunk \<Rightarrow> error + char list" where
  "prepareChunkData P chunk =
     (let headerSize = entrySize P * length (files chunk);
          nameSize = getChunkNameTotalSize chunk;
          dataSize = getChunkDataTotalSize chunk;
          totalSize = headerSize + nameSize + dataSize
      in case layoutCursors P chunk of
           Inl e \<Rightarrow> Inl e
         | Inr (data, nameOff, dataOff) \<Rightarrow>
             if nameOff = headerSize + nameSize \<and> dataOff = totalSize
             then Inr data else Inl AssertionFailed)"

subsection \<open>Compression: \<^verbatim>\<open>compressData\<close>\<close>

text \<open>\<^verbatim>\<open>std::vector<char>::resize\<close>: truncates, or pads with zero bytes.\<close>

definition resize :: "char list \<Rightarrow> nat \<Rightarrow> char list" where
  "resize v n = take n v @ replicate (n - length v) (CHR 0x00)"

definition compressData :: "Params \<Rightarrow> char list \<Rightarrow> error + char list" where
  "compressData P data =
     (let cdata = replicate (LZ4_compressBound P (length data)) (CHR 0x00);
          (csize, stored) = LZ4_compressHC P data
      in case copy_to cdata 0 stored of
           Inl e \<Rightarrow> Inl e
         | Inr cdata' \<Rightarrow>
             if csize \<ge> 0 \<and> nat csize \<le> length cdata'
             then Inr (resize cdata' (nat csize))
             else Inl AssertionFailed)"

subsection \<open>The builder\<close>

text \<open>The constructor: an empty chunk, zero statistics, a stream not yet written.\<close>

definition Builder_new :: Builder where
  "Builder_new =
     \<lparr>currentChunk = Chunk_new, outData = [],
      statistics = \<lparr>st_fileCount = 0, st_fileSize = 0, st_resultSize = 0\<rparr>\<rparr>"

definition start :: "FileSystem \<Rightarrow> Builder \<Rightarrow> string \<Rightarrow> bool \<times> Builder" where
  "start fs b path =
     (if \<not> openWrite fs path then (False, b)
      else (True, b\<lparr>outData := outData b @ [WFileHeader]\<rparr>))"

definition writeChunk :: "Params \<Rightarrow> Builder \<Rightarrow> Chunk \<Rightarrow> char list \<Rightarrow> error + Builder" where
  "writeChunk P b chunk data =
     (case compressData P data of
        Inl e \<Rightarrow> Inl e
      | Inr cdata \<Rightarrow>
          (let header = \<lparr>fileCount = length (files chunk),
                         uncompressedSize = length data,
                         compressedSize = length cdata\<rparr>;
               s = statistics b
           in Inr (b\<lparr>outData := outData b @ [WChunkHeader header, WBytes cdata],
                     statistics :=
                       \<lparr>st_fileCount = st_fileCount s + length (files chunk),
                        st_fileSize = st_fileSize s + of_nat (length data),
                        st_resultSize = st_resultSize s + of_nat (length cdata)\<rparr>\<rparr>)))"

definition flushChunk :: "Params \<Rightarrow> Builder \<Rightarrow> error + Builder" where
  "flushChunk P b =
     (if files (currentChunk b) = [] then Inr b
      else case prepareChunkData P (currentChunk b) of
             Inl e \<Rightarrow> Inl e
           | Inr data \<Rightarrow>
               (case writeChunk P b (currentChunk b) data of
                  Inl e \<Rightarrow> Inl e
                | Inr b' \<Rightarrow> Inr (b'\<lparr>currentChunk := Chunk_new\<rparr>)))"

definition flush :: "Params \<Rightarrow> Builder \<Rightarrow> error + Builder" where
  "flush P b = flushChunk P b"

text \<open>
  The read loop of \<^verbatim>\<open>appendFile\<close>, \<^verbatim>\<open>while (!in.eof())\<close>, with blocks of 65536 bytes.
  \<open>rest\<close> is what the stream still delivers, \<open>e\<close> is how it ends, \<open>acc\<close> is
  \<^verbatim>\<open>file.contents\<close>. A read that gets a full block sets no flag. A read that gets fewer
  bytes sets \<^verbatim>\<open>eofbit\<close> at the end of the file, and the loop ends. When that read fails
  instead, \<^verbatim>\<open>eofbit\<close> stays clear: the loop goes on, and every later read delivers
  nothing and sets no \<^verbatim>\<open>eofbit\<close> either. \<open>None\<close> is the loop that does not end.
\<close>

partial_function (option) readLoop :: "char list \<Rightarrow> ending \<Rightarrow> char list \<Rightarrow> char list option" where
  "readLoop rest e acc =
     (if length rest < 65536
      then (if e = EndOfFile then Some (acc @ take 65536 rest)
            else readLoop [] e (acc @ take 65536 rest))
      else readLoop (drop 65536 rest) e (acc @ take 65536 rest))"

text \<open>The check of line 53, before anything is read.\<close>

definition flushIfOver :: "Params \<Rightarrow> Builder \<Rightarrow> error + Builder" where
  "flushIfOver P b =
     (if totalSize (currentChunk b) > kChunkSize P then flushChunk P b else Inr b)"

definition appendFile ::
  "Params \<Rightarrow> FileSystem \<Rightarrow> Builder \<Rightarrow> string \<Rightarrow> (error + (bool \<times> Builder)) option" where
  "appendFile P fs b path =
     (case flushIfOver P b of
        Inl e \<Rightarrow> Some (Inl e)
      | Inr b1 \<Rightarrow>
     (case openRead fs path of
        None \<Rightarrow> Some (Inr (False, b1))
      | Some stream \<Rightarrow>
     (case getFileAttributes fs path of
        None \<Rightarrow> Some (Inr (False, b1))
      | Some (ts, sz) \<Rightarrow>
     (case readLoop (s_bytes stream) (s_end stream) [] of
        None \<Rightarrow> None
      | Some bytes \<Rightarrow>
          (let file = \<lparr>name = path, contents = bytes, fileSize = sz, timeStamp = ts\<rparr>;
               c = currentChunk b1
           in Some (Inr (True,
                b1\<lparr>currentChunk :=
                     \<lparr>files = files c @ [file],
                      totalSize = totalSize c + length (contents file)\<rparr>\<rparr>)))))))"

text \<open>
  The loop of \<^verbatim>\<open>buildProject\<close> over the collected paths: \<^verbatim>\<open>builderAppend\<close> reports a
  file that could not be appended and goes on.
\<close>

fun appendAll ::
  "Params \<Rightarrow> FileSystem \<Rightarrow> Builder \<Rightarrow> string list \<Rightarrow> (error + Builder) option" where
  "appendAll P fs b [] = Some (Inr b)"
| "appendAll P fs b (p # ps) =
     (case appendFile P fs b p of
        None \<Rightarrow> None
      | Some (Inl e) \<Rightarrow> Some (Inl e)
      | Some (Inr (ok, b')) \<Rightarrow> appendAll P fs b' ps)"

text \<open>
  The builder part of \<^verbatim>\<open>buildProject\<close>: \<^verbatim>\<open>start\<close> (fatal when it fails), every path,
  then the final \<^verbatim>\<open>flush\<close>.
\<close>

definition buildArchive ::
  "Params \<Rightarrow> FileSystem \<Rightarrow> string \<Rightarrow> string list \<Rightarrow> (error + Builder) option" where
  "buildArchive P fs tempPath paths =
     (case start fs Builder_new tempPath of
        (False, b) \<Rightarrow> Some (Inl Fatal)
      | (True, b) \<Rightarrow>
          (case appendAll P fs b paths of
             None \<Rightarrow> None
           | Some (Inl e) \<Rightarrow> Some (Inl e)
           | Some (Inr b') \<Rightarrow> Some (flush P b')))"

subsection \<open>The project file: \<^verbatim>\<open>trim\<close>, \<^verbatim>\<open>extractSuffix\<close>, \<^verbatim>\<open>parseInput\<close>\<close>

text \<open>
  \<^verbatim>\<open>find_first_not_of\<close> and \<^verbatim>\<open>find_last_not_of\<close>: the index of the first (last)
  character that is not in the pattern; \<open>None\<close> is \<^verbatim>\<open>npos\<close>.
\<close>

fun find_first_not_of :: "string \<Rightarrow> string \<Rightarrow> nat option" where
  "find_first_not_of [] pat = None"
| "find_first_not_of (c # cs) pat =
     (if c \<notin> set pat then Some 0
      else case find_first_not_of cs pat of None \<Rightarrow> None | Some i \<Rightarrow> Some (Suc i))"

fun find_last_not_of :: "string \<Rightarrow> string \<Rightarrow> nat option" where
  "find_last_not_of [] pat = None"
| "find_last_not_of (c # cs) pat =
     (case find_last_not_of cs pat of
        Some i \<Rightarrow> Some (Suc i)
      | None \<Rightarrow> if c \<notin> set pat then Some 0 else None)"

text \<open>
  \<^verbatim>\<open>s.substr(pos, len)\<close>: at most \<open>len\<close> characters from index \<open>pos\<close>; it throws
  \<^verbatim>\<open>std::out_of_range\<close> when \<open>pos\<close> is beyond the end. Both uses in \<^verbatim>\<open>build.cpp\<close>
  have \<open>pos \<le> length s\<close>.
\<close>

definition substr :: "string \<Rightarrow> nat \<Rightarrow> nat \<Rightarrow> string" where
  "substr s pos len = take len (drop pos s)"

definition trim :: "string \<Rightarrow> string" where
  "trim s =
     (let pattern = [CHR '' '', CHR 0x09];
          b = find_first_not_of s pattern;
          e = find_last_not_of s pattern
      in case (b, e) of
           (Some b', Some e') \<Rightarrow> substr s b' (e' + 1)
         | _ \<Rightarrow> [])"

text \<open>\<^verbatim>\<open>isspace\<close> in the C locale: space, \<^verbatim>\<open>\t \n \v \f \r\<close>.\<close>

definition isspace :: "char \<Rightarrow> bool" where
  "isspace c = (c \<in> set [CHR '' '', CHR 0x09, CHR 0x0A, CHR 0x0B, CHR 0x0C, CHR 0x0D])"

text \<open>\<open>None\<close> is the result false; \<open>Some suffix\<close> is true with the suffix stored.\<close>

definition extractSuffix :: "string \<Rightarrow> string \<Rightarrow> string option" where
  "extractSuffix str prefix =
     (let len = length prefix
      in if take len str = prefix \<and> length str > len \<and> isspace (str ! len)
         then Some (trim (drop len str))
         else None)"

record Project =
  pathSet :: "string list"
  includeSet :: "string list"
  excludeSet :: "string list"
  fileSet :: "string list"

definition Project_empty :: Project where
  "Project_empty = \<lparr>pathSet = [], includeSet = [], excludeSet = [], fileSet = []\<rparr>"

text \<open>The body of the \<^verbatim>\<open>getline\<close> loop, for one line.\<close>

definition parseLine :: "Project \<Rightarrow> string \<Rightarrow> Project" where
  "parseLine pr line0 =
     (let line = takeWhile (\<lambda>c. c \<noteq> CHR ''#'') line0
      in case extractSuffix line ''path'' of
           Some suffix \<Rightarrow> pr\<lparr>pathSet := pathSet pr @ [suffix]\<rparr>
         | None \<Rightarrow>
      (case extractSuffix line ''include'' of
           Some suffix \<Rightarrow> pr\<lparr>includeSet := includeSet pr @ [suffix]\<rparr>
         | None \<Rightarrow>
      (case extractSuffix line ''exclude'' of
           Some suffix \<Rightarrow> pr\<lparr>excludeSet := excludeSet pr @ [suffix]\<rparr>
         | None \<Rightarrow>
           (let file = trim line
            in if file \<noteq> [] then pr\<lparr>fileSet := fileSet pr @ [file]\<rparr> else pr))))"

text \<open>\<^verbatim>\<open>parseInput\<close> on a file that opens, given as its lines.\<close>

definition parseInput :: "string list \<Rightarrow> Project" where
  "parseInput lines = foldl parseLine Project_empty lines"

subsection \<open>File selection: \<^verbatim>\<open>constructOrRE\<close>, \<^verbatim>\<open>isFileAcceptable\<close>, \<^verbatim>\<open>buildProject\<close>\<close>

text \<open>The loop of \<^verbatim>\<open>constructOrRE\<close> over \<^verbatim>\<open>list[1..]\<close>, appending to \<^verbatim>\<open>re\<close>.\<close>

fun orLoop :: "string list \<Rightarrow> string \<Rightarrow> string" where
  "orLoop [] re = re"
| "orLoop (p # ps) re = orLoop ps (re @ ''|('' @ p @ '')'')"

text \<open>
  An \<^verbatim>\<open>RE2\<close> object is its pattern text and the one option that \<^verbatim>\<open>constructOrRE\<close> sets.
  \<open>re_ok\<close> is \<^verbatim>\<open>RE2::ok\<close>. \<open>None\<close> is the null pointer.
\<close>

record RE2 =
  re_pattern :: string
  re_case_sensitive :: bool

definition constructOrRE :: "(RE2 \<Rightarrow> bool) \<Rightarrow> string list \<Rightarrow> error + RE2 option" where
  "constructOrRE re_ok list =
     (case list of
        [] \<Rightarrow> Inr None
      | p # ps \<Rightarrow>
          (let re = orLoop ps (''('' @ p @ '')'');
               r = \<lparr>re_pattern = re, re_case_sensitive = False\<rparr>
           in if \<not> re_ok r then Inl Fatal else Inr (Some r)))"

text \<open>\<open>partialMatch path re\<close> is \<^verbatim>\<open>RE2::PartialMatch(path, re)\<close>.\<close>

definition isFileAcceptable ::
  "(string \<Rightarrow> RE2 \<Rightarrow> bool) \<Rightarrow> RE2 option \<Rightarrow> RE2 option \<Rightarrow> string \<Rightarrow> bool" where
  "isFileAcceptable partialMatch incl excl path =
     (if (case incl of None \<Rightarrow> False | Some re \<Rightarrow> \<not> partialMatch path re) then False
      else if (case excl of None \<Rightarrow> False | Some re \<Rightarrow> partialMatch path re) then False
      else True)"

text \<open>
  The scan loop of \<^verbatim>\<open>buildProject\<close>: \<open>traverse root\<close> is the sequence of paths that
  \<^verbatim>\<open>traverseDirectory\<close> hands to its callback; \<open>acc\<close> is \<^verbatim>\<open>bc.files\<close>.
\<close>

fun scanLoop ::
  "(string \<Rightarrow> string list) \<Rightarrow> (string \<Rightarrow> bool) \<Rightarrow> string list \<Rightarrow> string list \<Rightarrow> string list" where
  "scanLoop traverse accept [] acc = acc"
| "scanLoop traverse accept (root # roots) acc =
     scanLoop traverse accept roots (acc @ filter accept (traverse root))"

text \<open>\<^verbatim>\<open>std::sort\<close> followed by \<^verbatim>\<open>erase(std::unique(...))\<close> (lines 356 and 357).\<close>

definition sortUnique :: "string list \<Rightarrow> string list" where
  "sortUnique xs = remdups_adj (sort xs)"

text \<open>The list that \<^verbatim>\<open>buildProject\<close> hands to the builder, file by file.\<close>

definition selectFiles ::
  "(RE2 \<Rightarrow> bool) \<Rightarrow> (string \<Rightarrow> RE2 \<Rightarrow> bool) \<Rightarrow> (string \<Rightarrow> string list) \<Rightarrow> Project
     \<Rightarrow> error + string list" where
  "selectFiles re_ok partialMatch traverse pr =
     (case constructOrRE re_ok (includeSet pr) of
        Inl e \<Rightarrow> Inl e
      | Inr incl \<Rightarrow>
     (case constructOrRE re_ok (excludeSet pr) of
        Inl e \<Rightarrow> Inl e
      | Inr excl \<Rightarrow>
          Inr (sortUnique
                (scanLoop traverse (isFileAcceptable partialMatch incl excl)
                   (pathSet pr) (fileSet pr)))))"

subsection \<open>Notions used to state the properties\<close>

text \<open>
  The header entries that the loop of \<^verbatim>\<open>prepareChunkData\<close> stores when it starts on the
  files \<open>fs\<close> with the cursors \<open>nameOff\<close> and \<open>dataOff\<close>.
\<close>

fun entriesFrom :: "nat \<Rightarrow> nat \<Rightarrow> File list \<Rightarrow> ChunkFileHeader list" where
  "entriesFrom nameOff dataOff [] = []"
| "entriesFrom nameOff dataOff (f # fs) =
     \<lparr>nameOffset = nameOff, nameLength = length (name f),
      dataOffset = dataOff, dataSize = length (contents f),
      h_fileSize = fileSize f, h_timeStamp = timeStamp f\<rparr>
     # entriesFrom (nameOff + length (name f)) (dataOff + length (contents f)) fs"

text \<open>The sizes of the name region and of the data region of a list of files.\<close>

definition namesSize :: "File list \<Rightarrow> nat" where
  "namesSize fs = sum_list (map (\<lambda>f. length (name f)) fs)"

definition dataSizeOf :: "File list \<Rightarrow> nat" where
  "dataSizeOf fs = sum_list (map (\<lambda>f. length (contents f)) fs)"

text \<open>The bytes of a buffer at \<open>[off, off + len)\<close>.\<close>

definition bytesAt :: "char list \<Rightarrow> nat \<Rightarrow> nat \<Rightarrow> char list" where
  "bytesAt buf off len = take len (drop off buf)"

text \<open>Every encoded header entry takes \<^verbatim>\<open>sizeof(ChunkFileHeader)\<close> bytes.\<close>

definition entry_sized :: "Params \<Rightarrow> bool" where
  "entry_sized P = (\<forall>h. length (encodeEntry P h) = entrySize P)"

text \<open>
  The header entry of file \<open>i\<close> of a chunk as the format describes it: the name offset is
  the size of the header table plus the lengths of the names before it, the data offset
  is the size of the header table and of the name region plus the lengths of the contents
  before it. \<open>es\<close> is the size of one entry.
\<close>

definition expectedEntry :: "nat \<Rightarrow> File list \<Rightarrow> nat \<Rightarrow> ChunkFileHeader" where
  "expectedEntry es fs i =
     \<lparr>nameOffset = length fs * es + namesSize (take i fs),
      nameLength = length (name (fs ! i)),
      dataOffset = length fs * es + namesSize fs + dataSizeOf (take i fs),
      dataSize = length (contents (fs ! i)),
      h_fileSize = fileSize (fs ! i),
      h_timeStamp = timeStamp (fs ! i)\<rparr>"

text \<open>
  One instance of the parameters, for the examples: header entries of 32 bytes (four
  32-bit and two 64-bit little-endian fields), a threshold of 15 bytes, and a codec that
  stores its input unchanged, with the bound of LZ4.
\<close>

fun le_bytes :: "nat \<Rightarrow> nat \<Rightarrow> char list" where
  "le_bytes 0 v = []"
| "le_bytes (Suc k) v = char_of (v mod 256) # le_bytes k (v div 256)"

definition packEntry :: "ChunkFileHeader \<Rightarrow> char list" where
  "packEntry h =
     le_bytes 4 (nameOffset h) @ le_bytes 4 (nameLength h) @
     le_bytes 4 (dataOffset h) @ le_bytes 4 (dataSize h) @
     le_bytes 8 (unat (h_fileSize h)) @ le_bytes 8 (unat (h_timeStamp h))"

definition storedCodec :: "char list \<Rightarrow> int \<times> char list" where
  "storedCodec src = (int (length src), src)"

definition sampleParams :: Params where
  "sampleParams =
     \<lparr>kChunkSize = 15, entrySize = 32, encodeEntry = packEntry,
      LZ4_compressBound = (\<lambda>n. n + n div 255 + 16),
      LZ4_compressHC = storedCodec\<rparr>"

text \<open>Two chunks: two small files, and three files with empty names or contents.\<close>

definition sampleChunk :: Chunk where
  "sampleChunk =
     \<lparr>files = [\<lparr>name = ''a.txt'', contents = ''hi'', fileSize = 2, timeStamp = 7\<rparr>,
               \<lparr>name = ''b.txt'', contents = ''world'', fileSize = 5, timeStamp = 9\<rparr>],
      totalSize = 7\<rparr>"

definition blankChunk :: Chunk where
  "blankChunk =
     \<lparr>files = [\<lparr>name = [], contents = [], fileSize = 0, timeStamp = 1\<rparr>,
               \<lparr>name = ''n'', contents = [], fileSize = 0, timeStamp = 2\<rparr>,
               \<lparr>name = [], contents = ''xy'', fileSize = 2, timeStamp = 3\<rparr>],
      totalSize = 2\<rparr>"

text \<open>
  The contract of the codec for one input: the reported size is not negative and within
  the bound, and the compressor stores no byte beyond the bound.
\<close>

definition codec_ok :: "Params \<Rightarrow> char list \<Rightarrow> bool" where
  "codec_ok P data =
     (case LZ4_compressHC P data of
        (csize, stored) \<Rightarrow>
          0 \<le> csize \<and> nat csize \<le> LZ4_compressBound P (length data) \<and>
          length stored \<le> LZ4_compressBound P (length data))"

text \<open>
  The invariant of the current chunk: \<^verbatim>\<open>totalSize\<close> is the sum of the content lengths of
  its files.
\<close>

definition chunk_inv :: "Builder \<Rightarrow> bool" where
  "chunk_inv b = (totalSize (currentChunk b) = dataSizeOf (files (currentChunk b)))"

text \<open>
  The three kinds of path for \<^verbatim>\<open>appendFile\<close>. \<open>unavailable\<close>: the file does not open or
  has no attributes. \<open>hangs\<close>: it opens and has attributes, and its reads end in a
  failure. \<open>readFile fs path = Some f\<close>: it opens and has attributes, its reads reach the
  end of the file, and \<open>f\<close> is the \<^verbatim>\<open>File\<close> with the path, all bytes, the size and the
  time stamp.
\<close>

definition unavailable :: "FileSystem \<Rightarrow> string \<Rightarrow> bool" where
  "unavailable fs path = (openRead fs path = None \<or> getFileAttributes fs path = None)"

definition hangs :: "FileSystem \<Rightarrow> string \<Rightarrow> bool" where
  "hangs fs path =
     (case openRead fs path of
        None \<Rightarrow> False
      | Some stream \<Rightarrow> getFileAttributes fs path \<noteq> None \<and> s_end stream = ReadError)"

definition readFile :: "FileSystem \<Rightarrow> string \<Rightarrow> File option" where
  "readFile fs path =
     (case openRead fs path of
        None \<Rightarrow> None
      | Some stream \<Rightarrow>
          (case getFileAttributes fs path of
             None \<Rightarrow> None
           | Some (ts, sz) \<Rightarrow>
               if s_end stream = EndOfFile
               then Some \<lparr>name = path, contents = s_bytes stream, fileSize = sz, timeStamp = ts\<rparr>
               else None))"

text \<open>Lines 70 and 71: the file is pushed and \<^verbatim>\<open>totalSize\<close> grows by its content length.\<close>

definition pushFile :: "Builder \<Rightarrow> File \<Rightarrow> Builder" where
  "pushFile b f =
     b\<lparr>currentChunk :=
         \<lparr>files = files (currentChunk b) @ [f],
          totalSize = totalSize (currentChunk b) + length (contents f)\<rparr>\<rparr>"

text \<open>
  A file system for the examples: three files of ten bytes, a file without attributes, a
  directory (it opens and has attributes, and its first read fails), and nothing else;
  and a builder whose chunk holds the first two files.
\<close>

definition sampleFS :: FileSystem where
  "sampleFS =
     \<lparr>openRead = (\<lambda>p. if p = ''f1'' then Some \<lparr>s_bytes = ''0123456789'', s_end = EndOfFile\<rparr>
                      else if p = ''f2'' then Some \<lparr>s_bytes = ''abcdefghij'', s_end = EndOfFile\<rparr>
                      else if p = ''f3'' then Some \<lparr>s_bytes = ''ABCDEFGHIJ'', s_end = EndOfFile\<rparr>
                      else if p = ''nometa'' then Some \<lparr>s_bytes = ''x'', s_end = EndOfFile\<rparr>
                      else if p = ''dir'' then Some \<lparr>s_bytes = [], s_end = ReadError\<rparr>
                      else None),
      getFileAttributes = (\<lambda>p. if p = ''f1'' \<or> p = ''f2'' \<or> p = ''f3''
                                then Some (100, 10)
                                else if p = ''dir'' then Some (50, 4096) else None),
      openWrite = (\<lambda>p. True)\<rparr>"

definition sampleFile :: "string \<Rightarrow> string \<Rightarrow> File" where
  "sampleFile p bytes = \<lparr>name = p, contents = bytes, fileSize = 10, timeStamp = 100\<rparr>"

definition sampleBuilder :: Builder where
  "sampleBuilder =
     \<lparr>currentChunk =
        \<lparr>files = [sampleFile ''f1'' ''0123456789'', sampleFile ''f2'' ''abcdefghij''],
         totalSize = 20\<rparr>,
      outData = [WFileHeader],
      statistics = \<lparr>st_fileCount = 0, st_fileSize = 0, st_resultSize = 0\<rparr>\<rparr>"

text \<open>
  The alternation pattern of a list as the format describes it, \<^verbatim>\<open>(p1)|(p2)|...\<close>, and the
  case-insensitive \<^verbatim>\<open>RE2\<close> object for it.
\<close>

fun alternation :: "string list \<Rightarrow> string" where
  "alternation [] = []"
| "alternation [p] = ''('' @ p @ '')''"
| "alternation (p # q # ps) = ''('' @ p @ '')|'' @ alternation (q # ps)"

definition orRE :: "string list \<Rightarrow> RE2" where
  "orRE list = \<lparr>re_pattern = alternation list, re_case_sensitive = False\<rparr>"

text \<open>
  For the examples: a matcher that knows the two patterns \<^verbatim>\<open>(src)\<close> and \<^verbatim>\<open>(tmp)|(bak)\<close> on
  the paths used below, a project with one scan root and two explicit files, and two scans
  of the root that differ in their order.
\<close>

definition sampleMatch :: "string \<Rightarrow> RE2 \<Rightarrow> bool" where
  "sampleMatch path re =
     (if re_pattern re = ''(src)'' then take 3 path = ''src''
      else if re_pattern re = ''(tmp)|(bak)''
           then drop (length path - 3) path = ''tmp'' \<or> drop (length path - 3) path = ''bak''
      else False)"

definition sampleProject :: Project where
  "sampleProject =
     \<lparr>pathSet = [''src''], includeSet = [], excludeSet = [],
      fileSet = [''src/b.c'', ''README'']\<rparr>"

definition sampleScan :: "string \<Rightarrow> string list" where
  "sampleScan root = (if root = ''src'' then [''src/b.c'', ''src/a.c''] else [])"

definition sampleScan' :: "string \<Rightarrow> string list" where
  "sampleScan' root = (if root = ''src'' then [''src/a.c'', ''src/b.c''] else [])"

section \<open>Properties\<close>

subsection \<open>Trimming\<close>

text \<open>
  C4. \<^verbatim>\<open>trim\<close> is meant to return the text between the first and the last character
  that is neither a space nor a tab. It passes \<open>e + 1\<close> to \<^verbatim>\<open>substr\<close> as if it were an
  end index, while \<^verbatim>\<open>substr\<close> takes a count: with \<open>b\<close> leading blanks, up to \<open>b\<close>
  trailing blanks are kept. The line \<^verbatim>\<open>" a "\<close> is stored as the file \<^verbatim>\<open>"a "\<close>, and
  the directive \<^verbatim>\<open>"path  src  "\<close> stores the path \<^verbatim>\<open>"src  "\<close>; an indented file line with
  a comment, \<^verbatim>\<open>"  main.cpp  # entry"\<close>, stores \<^verbatim>\<open>"main.cpp  "\<close>.
\<close>

theorem trim_keeps_trailing_blanks:
  "trim '' a '' = ''a '' \<and>
   fileSet (parseInput ['' a '']) = [''a ''] \<and>
   pathSet (parseInput [''path  src  '']) = [''src  ''] \<and>
   fileSet (parseInput [''  main.cpp  # entry'']) = [''main.cpp  '']"
  by (simp add: trim_def substr_def parseInput_def parseLine_def extractSuffix_def
        isspace_def Project_empty_def)

subsection \<open>Chunk layout\<close>

lemma nameTotalLoop_eq: "nameTotalLoop fs r = r + namesSize fs"
  by (induction fs arbitrary: r) (simp_all add: namesSize_def)

lemma dataTotalLoop_eq: "dataTotalLoop fs r = r + dataSizeOf fs"
  by (induction fs arbitrary: r) (simp_all add: dataSizeOf_def)

lemma copy_to_mid:
  "length A = off \<Longrightarrow> length B = length src \<Longrightarrow> copy_to (A @ B @ C) off src = Inr (A @ src @ C)"
  by (simp add: copy_to_def)

lemma split_prefix:
  assumes "n \<le> length (zs::'a list)"
  obtains a b where "zs = a @ b" "length a = n"
  using assms by (metis append_take_drop_id length_take min.absorb2)

text \<open>
  The invariant of the layout loop. When it reaches file \<open>i\<close> the buffer consists of the
  header entries written so far (\<open>H\<close>), the rest of the header table (\<open>Z1\<close>), the names
  copied so far (\<open>N\<close>), the rest of the name region (\<open>Z2\<close>), the contents copied so far
  (\<open>D\<close>) and the rest of the data region (\<open>Z3\<close>); the cursors stand at the ends of \<open>N\<close>
  and \<open>D\<close>. No store leaves the buffer, and every store goes to the start of the unused
  part of its own region.
\<close>

lemma layoutLoop_general:
  assumes "entry_sized P"
    and "length H = i * entrySize P"
    and "length Z1 = entrySize P * length fs"
    and "nameOff = length H + length Z1 + length N"
    and "length Z2 = namesSize fs"
    and "dataOff = nameOff + length Z2 + length D"
    and "length Z3 = dataSizeOf fs"
  shows "layoutLoop P fs i (H @ Z1 @ N @ Z2 @ D @ Z3, nameOff, dataOff) =
           Inr (H @ concat (map (encodeEntry P) (entriesFrom nameOff dataOff fs)) @
                N @ concat (map name fs) @ D @ concat (map contents fs),
                nameOff + namesSize fs, dataOff + dataSizeOf fs)"
  using assms
proof (induction fs arbitrary: i H Z1 N Z2 D Z3 nameOff dataOff)
  case Nil
  then show ?case by (simp add: namesSize_def dataSizeOf_def)
next
  case (Cons f fs)
  let ?h = "\<lparr>nameOffset = nameOff, nameLength = length (name f),
      dataOffset = dataOff, dataSize = length (contents f),
      h_fileSize = fileSize f, h_timeStamp = timeStamp f\<rparr>"
  have es: "length (encodeEntry P ?h) = entrySize P"
    using Cons.prems(1) by (simp add: entry_sized_def)
  obtain E Z1' where Z1: "Z1 = E @ Z1'" and E: "length E = entrySize P"
    using Cons.prems(3) by (auto intro: split_prefix [of "entrySize P" Z1])
  obtain Zn Z2' where Z2: "Z2 = Zn @ Z2'" and Zn: "length Zn = length (name f)"
    using Cons.prems(5) by (auto simp: namesSize_def intro: split_prefix [of "length (name f)" Z2])
  obtain Zc Z3' where Z3: "Z3 = Zc @ Z3'" and Zc: "length Zc = length (contents f)"
    using Cons.prems(7) by (auto simp: dataSizeOf_def intro: split_prefix [of "length (contents f)" Z3])
  have l1: "length Z1' = entrySize P * length fs"
    using Cons.prems(3) Z1 E by simp
  have l2: "length Z2' = namesSize fs"
    using Cons.prems(5) Z2 Zn by (simp add: namesSize_def)
  have l3: "length Z3' = dataSizeOf fs"
    using Cons.prems(7) Z3 Zc by (simp add: dataSizeOf_def)
  have c1: "copy_to (H @ Z1 @ N @ Z2 @ D @ Z3) nameOff (name f) =
              Inr (H @ Z1 @ N @ name f @ Z2' @ D @ Z3)"
    using copy_to_mid [of "H @ Z1 @ N" nameOff Zn "name f" "Z2' @ D @ Z3"]
      Cons.prems(4) Zn Z2 by simp
  have c2: "copy_to (H @ Z1 @ N @ name f @ Z2' @ D @ Z3) dataOff (contents f) =
              Inr (H @ Z1 @ N @ name f @ Z2' @ D @ contents f @ Z3')"
    using copy_to_mid [of "H @ Z1 @ N @ name f @ Z2' @ D" dataOff Zc "contents f" Z3']
      Cons.prems(4,6) Zn Z2 Zc Z3 by simp
  have c3: "copy_to (H @ Z1 @ N @ name f @ Z2' @ D @ contents f @ Z3') (i * entrySize P)
               (encodeEntry P ?h) =
              Inr (H @ encodeEntry P ?h @ Z1' @ N @ name f @ Z2' @ D @ contents f @ Z3')"
    using copy_to_mid [of H "i * entrySize P" E "encodeEntry P ?h"
        "Z1' @ N @ name f @ Z2' @ D @ contents f @ Z3'"]
      Cons.prems(2) E es Z1 by simp
  have ih: "layoutLoop P fs (Suc i)
              ((H @ encodeEntry P ?h) @ Z1' @ (N @ name f) @ Z2' @ (D @ contents f) @ Z3',
               nameOff + length (name f), dataOff + length (contents f)) =
            Inr ((H @ encodeEntry P ?h) @
                 concat (map (encodeEntry P)
                   (entriesFrom (nameOff + length (name f)) (dataOff + length (contents f)) fs)) @
                 (N @ name f) @ concat (map name fs) @ (D @ contents f) @ concat (map contents fs),
                 nameOff + length (name f) + namesSize fs,
                 dataOff + length (contents f) + dataSizeOf fs)"
  proof (rule Cons.IH [OF Cons.prems(1)])
    show "length (H @ encodeEntry P ?h) = Suc i * entrySize P"
      using Cons.prems(2) es by simp
    show "length Z1' = entrySize P * length fs" by (rule l1)
    show "nameOff + length (name f) = length (H @ encodeEntry P ?h) + length Z1' + length (N @ name f)"
      using Cons.prems(4) Z1 E es by simp
    show "length Z2' = namesSize fs" by (rule l2)
    show "dataOff + length (contents f) =
            nameOff + length (name f) + length Z2' + length (D @ contents f)"
      using Cons.prems(6) Z2 Zn by simp
    show "length Z3' = dataSizeOf fs" by (rule l3)
  qed
  have sz: "namesSize (f # fs) = length (name f) + namesSize fs"
           "dataSizeOf (f # fs) = length (contents f) + dataSizeOf fs"
    by (simp_all add: namesSize_def dataSizeOf_def)
  show ?case
    using ih by (simp add: c1 c2 c3 sz add.assoc)
qed

lemma length_le_bytes: "length (le_bytes k v) = k"
  by (induction k arbitrary: v) simp_all

lemma sampleParams_entry_sized: "entry_sized sampleParams"
  by (simp add: entry_sized_def sampleParams_def packEntry_def length_le_bytes)

lemma entriesFrom_length: "length (entriesFrom a b fs) = length fs"
  by (induction fs arbitrary: a b) simp_all

lemma entriesFrom_nth:
  "i < length fs \<Longrightarrow>
   entriesFrom a b fs ! i =
     \<lparr>nameOffset = a + namesSize (take i fs), nameLength = length (name (fs ! i)),
      dataOffset = b + dataSizeOf (take i fs), dataSize = length (contents (fs ! i)),
      h_fileSize = fileSize (fs ! i), h_timeStamp = timeStamp (fs ! i)\<rparr>"
proof (induction fs arbitrary: a b i)
  case Nil
  then show ?case by simp
next
  case (Cons f fs)
  show ?case
  proof (cases i)
    case 0
    then show ?thesis by (simp add: namesSize_def dataSizeOf_def)
  next
    case (Suc j)
    with Cons.prems have "j < length fs" by simp
    from Cons.IH [OF this] Suc show ?thesis
      by (simp add: namesSize_def dataSizeOf_def add.assoc)
  qed
qed

lemma entriesFrom_expected:
  "entriesFrom (length fs * es) (length fs * es + namesSize fs) fs =
     map (expectedEntry es fs) [0..<length fs]"
  by (rule nth_equalityI) (simp_all add: entriesFrom_length entriesFrom_nth expectedEntry_def)

lemma bytesAt_concat:
  assumes "i < length xss"
  shows "bytesAt (pre @ concat xss @ post) (length pre + length (concat (take i xss)))
           (length (xss ! i)) = xss ! i"
proof -
  have "xss = take i xss @ (xss ! i) # drop (Suc i) xss"
    using assms by (simp add: id_take_nth_drop)
  then have "pre @ concat xss @ post =
      (pre @ concat (take i xss)) @ (xss ! i) @ (concat (drop (Suc i) xss) @ post)"
    by (metis append.assoc concat.simps(2) concat_append)
  then show ?thesis
    by (simp add: bytesAt_def)
qed

lemma length_concat_names: "length (concat (map name fs)) = namesSize fs"
  by (simp add: namesSize_def length_concat comp_def)

lemma length_concat_contents: "length (concat (map contents fs)) = dataSizeOf fs"
  by (simp add: dataSizeOf_def length_concat comp_def)

lemma length_concat_entries:
  "entry_sized P \<Longrightarrow> length (concat (map (encodeEntry P) hs)) = length hs * entrySize P"
  by (induction hs) (simp_all add: entry_sized_def)

lemma layoutCursors_result:
  assumes "entry_sized P"
  shows "layoutCursors P chunk =
     Inr (concat (map (encodeEntry P)
            (map (expectedEntry (entrySize P) (files chunk)) [0..<length (files chunk)])) @
          concat (map name (files chunk)) @ concat (map contents (files chunk)),
          entrySize P * length (files chunk) + namesSize (files chunk),
          entrySize P * length (files chunk) + namesSize (files chunk) + dataSizeOf (files chunk))"
proof -
  let ?fs = "files chunk"
  let ?hs = "entrySize P * length ?fs"
  have "layoutLoop P ?fs 0
          ([] @ replicate ?hs (CHR 0x00) @ [] @ replicate (namesSize ?fs) (CHR 0x00) @ [] @
           replicate (dataSizeOf ?fs) (CHR 0x00), ?hs, ?hs + namesSize ?fs) =
        Inr ([] @ concat (map (encodeEntry P) (entriesFrom ?hs (?hs + namesSize ?fs) ?fs)) @
             [] @ concat (map name ?fs) @ [] @ concat (map contents ?fs),
             ?hs + namesSize ?fs, ?hs + namesSize ?fs + dataSizeOf ?fs)"
    by (rule layoutLoop_general [OF assms]) simp_all
  moreover have "entriesFrom ?hs (?hs + namesSize ?fs) ?fs =
      map (expectedEntry (entrySize P) ?fs) [0..<length ?fs]"
    using entriesFrom_expected [of ?fs "entrySize P"] by (simp add: mult.commute)
  ultimately show ?thesis
    by (simp add: layoutCursors_def getChunkNameTotalSize_def getChunkDataTotalSize_def
          nameTotalLoop_eq dataTotalLoop_eq replicate_add Let_def)
qed

lemma prepareChunkData_result:
  assumes "entry_sized P"
  shows "prepareChunkData P chunk =
     Inr (concat (map (encodeEntry P)
            (map (expectedEntry (entrySize P) (files chunk)) [0..<length (files chunk)])) @
          concat (map name (files chunk)) @ concat (map contents (files chunk)))"
  by (simp add: prepareChunkData_def layoutCursors_result [OF assms]
        getChunkNameTotalSize_def getChunkDataTotalSize_def nameTotalLoop_eq dataTotalLoop_eq Let_def)

lemma bytesAt_entry:
  assumes "entry_sized P" "i < length hs"
  shows "bytesAt (concat (map (encodeEntry P) hs) @ post) (i * entrySize P) (entrySize P) =
           encodeEntry P (hs ! i)"
proof -
  have "bytesAt ([] @ concat (map (encodeEntry P) hs) @ post)
          (length ([]::char list) + length (concat (take i (map (encodeEntry P) hs))))
          (length (map (encodeEntry P) hs ! i)) = map (encodeEntry P) hs ! i"
    by (rule bytesAt_concat) (simp add: assms)
  moreover have "length (concat (take i (map (encodeEntry P) hs))) = i * entrySize P"
    using assms length_concat_entries [OF assms(1), of "take i hs"] by (simp add: take_map)
  moreover have "length (map (encodeEntry P) hs ! i) = entrySize P"
    using assms by (simp add: entry_sized_def)
  ultimately show ?thesis
    using assms(2) by simp
qed

lemma bytesAt_name:
  assumes "i < length fs" "length pre = k"
  shows "bytesAt (pre @ concat (map name fs) @ post) (k + namesSize (take i fs))
           (length (name (fs ! i))) = name (fs ! i)"
proof -
  have "bytesAt (pre @ concat (map name fs) @ post)
          (length pre + length (concat (take i (map name fs))))
          (length (map name fs ! i)) = map name fs ! i"
    by (rule bytesAt_concat) (simp add: assms)
  then show ?thesis
    using assms by (simp add: take_map length_concat_names)
qed

lemma bytesAt_contents:
  assumes "i < length fs" "length pre = k"
  shows "bytesAt (pre @ concat (map contents fs)) (k + dataSizeOf (take i fs))
           (length (contents (fs ! i))) = contents (fs ! i)"
proof -
  have "bytesAt (pre @ concat (map contents fs) @ [])
          (length pre + length (concat (take i (map contents fs))))
          (length (map contents fs ! i)) = map contents fs ! i"
    by (rule bytesAt_concat) (simp add: assms)
  then show ?thesis
    using assms by (simp add: take_map length_concat_contents)
qed

text \<open>
  C2. For every chunk of \<open>n\<close> files, \<^verbatim>\<open>prepareChunkData\<close> returns a body that is the
  \<open>n\<close> header entries in insertion order, then the names, then the contents. Entry \<open>i\<close>
  is \<open>expectedEntry\<close>: name offset \<open>n * entrySize\<close> plus the lengths of the names of the
  files before \<open>i\<close>, the name length of file \<open>i\<close>, data offset \<open>n * entrySize\<close> plus the
  size of the name region plus the lengths of the contents before \<open>i\<close>, the content length,
  the file size and the time stamp of file \<open>i\<close>. The bytes of the body at the name offset
  are the name of file \<open>i\<close>, and those at the data offset are its contents; all offsets
  count from the start of the body.
\<close>

theorem prepareChunkData_layout:
  assumes "entry_sized P"
  shows "\<exists>body. prepareChunkData P chunk = Inr body \<and>
     body = concat (map (\<lambda>i. encodeEntry P (expectedEntry (entrySize P) (files chunk) i))
                     [0..<length (files chunk)]) @
            concat (map name (files chunk)) @ concat (map contents (files chunk)) \<and>
     (\<forall>i<length (files chunk).
        bytesAt body (i * entrySize P) (entrySize P) =
          encodeEntry P (expectedEntry (entrySize P) (files chunk) i) \<and>
        bytesAt body (nameOffset (expectedEntry (entrySize P) (files chunk) i))
          (nameLength (expectedEntry (entrySize P) (files chunk) i)) = name (files chunk ! i) \<and>
        bytesAt body (dataOffset (expectedEntry (entrySize P) (files chunk) i))
          (dataSize (expectedEntry (entrySize P) (files chunk) i)) = contents (files chunk ! i))"
proof -
  let ?fs = "files chunk"
  let ?es = "entrySize P"
  let ?hs = "map (expectedEntry ?es ?fs) [0..<length ?fs]"
  let ?T = "concat (map (encodeEntry P) ?hs)"
  let ?N = "concat (map name ?fs)"
  let ?D = "concat (map contents ?fs)"
  let ?body = "?T @ ?N @ ?D"
  have res: "prepareChunkData P chunk = Inr ?body"
    by (rule prepareChunkData_result [OF assms])
  have lenT: "length ?T = length ?fs * ?es"
    using length_concat_entries [OF assms, of ?hs] by simp
  have slices: "bytesAt ?body (i * ?es) ?es = encodeEntry P (expectedEntry ?es ?fs i) \<and>
        bytesAt ?body (nameOffset (expectedEntry ?es ?fs i))
          (nameLength (expectedEntry ?es ?fs i)) = name (?fs ! i) \<and>
        bytesAt ?body (dataOffset (expectedEntry ?es ?fs i))
          (dataSize (expectedEntry ?es ?fs i)) = contents (?fs ! i)"
    if i: "i < length ?fs" for i
  proof -
    have "bytesAt ?body (i * ?es) ?es = encodeEntry P (?hs ! i)"
      using bytesAt_entry [OF assms, of i ?hs "?N @ ?D"] i by simp
    then have a: "bytesAt ?body (i * ?es) ?es = encodeEntry P (expectedEntry ?es ?fs i)"
      using i by simp
    have b: "bytesAt ?body (length ?fs * ?es + namesSize (take i ?fs))
               (length (name (?fs ! i))) = name (?fs ! i)"
      by (rule bytesAt_name [OF i lenT])
    have "bytesAt ((?T @ ?N) @ ?D) (length ?fs * ?es + namesSize ?fs + dataSizeOf (take i ?fs))
               (length (contents (?fs ! i))) = contents (?fs ! i)"
      by (rule bytesAt_contents [OF i]) (simp add: lenT length_concat_names del: map_map)
    then have c: "bytesAt ?body (length ?fs * ?es + namesSize ?fs + dataSizeOf (take i ?fs))
               (length (contents (?fs ! i))) = contents (?fs ! i)"
      by simp
    show ?thesis
      using a b c by (simp add: expectedEntry_def)
  qed
  have tbl: "?T = concat (map (\<lambda>i. encodeEntry P (expectedEntry ?es ?fs i)) [0..<length ?fs])"
    by (simp add: comp_def)
  show ?thesis
    using res slices tbl by (intro exI [of _ ?body]) simp
qed

text \<open>
  C3. For every chunk, empty names and empty contents included, the loop of
  \<^verbatim>\<open>prepareChunkData\<close> ends with the name cursor at \<open>headerSize + nameSize\<close> and the data
  cursor at \<open>headerSize + nameSize + dataSize\<close>, which is the size of the buffer: the
  \<^verbatim>\<open>assert\<close> on the two cursors does not fail.
\<close>

theorem layout_cursors_final:
  assumes "entry_sized P"
  shows "(\<exists>data. layoutCursors P chunk =
            Inr (data,
                 entrySize P * length (files chunk) + getChunkNameTotalSize chunk,
                 entrySize P * length (files chunk) + getChunkNameTotalSize chunk +
                   getChunkDataTotalSize chunk) \<and>
            length data = entrySize P * length (files chunk) + getChunkNameTotalSize chunk +
                   getChunkDataTotalSize chunk) \<and>
         prepareChunkData P chunk \<noteq> Inl AssertionFailed"
proof -
  have sizes: "getChunkNameTotalSize chunk = namesSize (files chunk)"
    "getChunkDataTotalSize chunk = dataSizeOf (files chunk)"
    by (simp_all add: getChunkNameTotalSize_def getChunkDataTotalSize_def
          nameTotalLoop_eq dataTotalLoop_eq)
  have len: "length (concat (map (encodeEntry P)
            (map (expectedEntry (entrySize P) (files chunk)) [0..<length (files chunk)]))) =
         length (files chunk) * entrySize P"
    using length_concat_entries [OF assms,
        of "map (expectedEntry (entrySize P) (files chunk)) [0..<length (files chunk)]"]
    by (simp del: map_map)
  show ?thesis
    using len
    by (simp add: layoutCursors_result [OF assms] prepareChunkData_result [OF assms] sizes
          length_concat_names length_concat_contents del: map_map)
qed

text \<open>
  The chunk of \<^verbatim>\<open>a.txt\<close> (\<^verbatim>\<open>hi\<close>) and \<^verbatim>\<open>b.txt\<close> (\<^verbatim>\<open>world\<close>) with entries of 32 bytes:
  a body of 81 bytes, names from offset 64, contents from offset 74.
\<close>

theorem prepareChunkData_layout_witness:
  "entry_sized sampleParams \<and>
   (\<exists>body. prepareChunkData sampleParams sampleChunk = Inr body \<and>
      length body = 81 \<and>
      bytesAt body 0 32 =
        packEntry \<lparr>nameOffset = 64, nameLength = 5, dataOffset = 74, dataSize = 2,
                   h_fileSize = 2, h_timeStamp = 7\<rparr> \<and>
      bytesAt body 32 32 =
        packEntry \<lparr>nameOffset = 69, nameLength = 5, dataOffset = 76, dataSize = 5,
                   h_fileSize = 5, h_timeStamp = 9\<rparr> \<and>
      bytesAt body 64 5 = ''a.txt'' \<and> bytesAt body 74 2 = ''hi'' \<and>
      bytesAt body 69 5 = ''b.txt'' \<and> bytesAt body 76 5 = ''world'')"
proof -
  have sized: "entry_sized sampleParams"
    by (simp add: entry_sized_def sampleParams_def packEntry_def length_le_bytes)
  from prepareChunkData_layout [OF sized, of sampleChunk]
  obtain body where res: "prepareChunkData sampleParams sampleChunk = Inr body"
    and body: "body =
       concat (map (\<lambda>i. encodeEntry sampleParams
                      (expectedEntry (entrySize sampleParams) (files sampleChunk) i))
                [0..<length (files sampleChunk)]) @
       concat (map name (files sampleChunk)) @ concat (map contents (files sampleChunk))"
    and slices: "\<forall>i<length (files sampleChunk).
        bytesAt body (i * entrySize sampleParams) (entrySize sampleParams) =
          encodeEntry sampleParams (expectedEntry (entrySize sampleParams) (files sampleChunk) i) \<and>
        bytesAt body (nameOffset (expectedEntry (entrySize sampleParams) (files sampleChunk) i))
          (nameLength (expectedEntry (entrySize sampleParams) (files sampleChunk) i)) =
          name (files sampleChunk ! i) \<and>
        bytesAt body (dataOffset (expectedEntry (entrySize sampleParams) (files sampleChunk) i))
          (dataSize (expectedEntry (entrySize sampleParams) (files sampleChunk) i)) =
          contents (files sampleChunk ! i)"
    by blast
  have len: "length body = 81"
    unfolding body
    by (simp add: sampleParams_def sampleChunk_def packEntry_def length_le_bytes upt_rec)
  have s0: "bytesAt body 0 32 =
        packEntry \<lparr>nameOffset = 64, nameLength = 5, dataOffset = 74, dataSize = 2,
                   h_fileSize = 2, h_timeStamp = 7\<rparr> \<and>
        bytesAt body 64 5 = ''a.txt'' \<and> bytesAt body 74 2 = ''hi''"
    using slices [rule_format, of 0]
    by (simp add: sampleParams_def sampleChunk_def expectedEntry_def namesSize_def dataSizeOf_def
          numeral_2_eq_2 [symmetric])
  have s1: "bytesAt body 32 32 =
        packEntry \<lparr>nameOffset = 69, nameLength = 5, dataOffset = 76, dataSize = 5,
                   h_fileSize = 5, h_timeStamp = 9\<rparr> \<and>
        bytesAt body 69 5 = ''b.txt'' \<and> bytesAt body 76 5 = ''world''"
    using slices [rule_format, of 1]
    by (simp add: sampleParams_def sampleChunk_def expectedEntry_def namesSize_def dataSizeOf_def
          numeral_2_eq_2 [symmetric])
  show ?thesis
    using sized res len s0 s1 by blast
qed

text \<open>Three files with the names \<^verbatim>\<open>""\<close>, \<^verbatim>\<open>"n"\<close>, \<^verbatim>\<open>""\<close> and the contents \<^verbatim>\<open>""\<close>, \<^verbatim>\<open>""\<close>, \<^verbatim>\<open>"xy"\<close>.\<close>

theorem layout_cursors_final_witness:
  "entry_sized sampleParams \<and>
   (\<exists>data. layoutCursors sampleParams blankChunk = Inr (data, 97, 99) \<and> length data = 99) \<and>
   prepareChunkData sampleParams blankChunk \<noteq> Inl AssertionFailed"
proof -
  have sized: "entry_sized sampleParams"
    by (simp add: entry_sized_def sampleParams_def packEntry_def length_le_bytes)
  show ?thesis
    using sized layout_cursors_final [OF sized, of blankChunk]
    by (simp add: sampleParams_def blankChunk_def getChunkNameTotalSize_def
          getChunkDataTotalSize_def)
qed

subsection \<open>Compression\<close>

lemma copy_to_length: "copy_to data off src = Inr data' \<Longrightarrow> length data' = length data"
  by (auto simp: copy_to_def split: if_splits)

lemma resize_length: "length (resize v n) = n"
  by (simp add: resize_def)

lemma copy_to_start:
  "length src \<le> n \<Longrightarrow>
   copy_to (replicate n c) 0 src = Inr (src @ replicate (n - length src) c)"
  by (simp add: copy_to_def)

text \<open>
  C5. \<^verbatim>\<open>compressData\<close> gives the compressor a buffer of \<open>LZ4_compressBound n\<close> bytes for an
  input of \<open>n\<close> bytes. Whenever it returns a buffer, the size the compressor reported is
  between 0 and that bound, and the buffer is the first \<open>csize\<close> bytes of the scratch
  buffer, so its length is exactly \<open>csize\<close>. A reported size that is negative or above
  the bound ends in the failed assertion; a size within the bound returns.
\<close>

theorem compressData_contract:
  "case LZ4_compressHC P data of
     (csize, stored) \<Rightarrow>
       (\<forall>r. compressData P data = Inr r \<longrightarrow>
          0 \<le> csize \<and> nat csize \<le> LZ4_compressBound P (length data) \<and>
          length stored \<le> LZ4_compressBound P (length data) \<and>
          length r = nat csize \<and>
          r = take (nat csize)
                (stored @ replicate (LZ4_compressBound P (length data) - length stored) (CHR 0x00))) \<and>
       (length stored \<le> LZ4_compressBound P (length data) \<and>
        \<not> (0 \<le> csize \<and> nat csize \<le> LZ4_compressBound P (length data)) \<longrightarrow>
          compressData P data = Inl AssertionFailed) \<and>
       (length stored \<le> LZ4_compressBound P (length data) \<and>
        0 \<le> csize \<and> nat csize \<le> LZ4_compressBound P (length data) \<longrightarrow>
          (\<exists>r. compressData P data = Inr r))"
proof (cases "LZ4_compressHC P data")
  case (Pair csize stored)
  let ?n = "LZ4_compressBound P (length data)"
  show ?thesis
  proof (cases "length stored \<le> ?n")
    case True
    then have "copy_to (replicate ?n (CHR 0x00)) 0 stored =
                 Inr (stored @ replicate (?n - length stored) (CHR 0x00))"
      by (rule copy_to_start)
    with True Pair show ?thesis
      by (auto simp: compressData_def resize_def)
  next
    case False
    then have "copy_to (replicate ?n (CHR 0x00)) 0 stored = Inl OutOfRange"
      by (simp add: copy_to_def)
    with False Pair show ?thesis
      by (simp add: compressData_def)
  qed
qed

text \<open>
  The storing codec on five bytes (bound 21), and two codecs that report 22 and -1.
\<close>

theorem compressData_contract_witness:
  "compressData sampleParams ''hello'' = Inr ''hello'' \<and>
   LZ4_compressBound sampleParams (length ''hello'') = 21 \<and>
   compressData (sampleParams\<lparr>LZ4_compressHC := (\<lambda>src. (22, src))\<rparr>) ''hello'' = Inl AssertionFailed \<and>
   compressData (sampleParams\<lparr>LZ4_compressHC := (\<lambda>src. (- 1, src))\<rparr>) ''hello'' = Inl AssertionFailed"
proof -
  have a: "compressData sampleParams ''hello'' = Inr ''hello''"
    using compressData_contract [of sampleParams "''hello''"]
    by (auto simp add: sampleParams_def storedCodec_def)
  have b: "compressData (sampleParams\<lparr>LZ4_compressHC := (\<lambda>src. (22, src))\<rparr>) ''hello'' = Inl AssertionFailed"
    using compressData_contract [of "sampleParams\<lparr>LZ4_compressHC := (\<lambda>src. (22, src))\<rparr>" "''hello''"]
    by (simp add: sampleParams_def)
  have c: "compressData (sampleParams\<lparr>LZ4_compressHC := (\<lambda>src. (- 1, src))\<rparr>) ''hello'' = Inl AssertionFailed"
    using compressData_contract [of "sampleParams\<lparr>LZ4_compressHC := (\<lambda>src. (- 1, src))\<rparr>" "''hello''"]
    by (simp add: sampleParams_def)
  show ?thesis
    using a b c by (simp add: sampleParams_def)
qed

subsection \<open>The builder\<close>

lemma compressData_ok:
  assumes "codec_ok P data"
  shows "\<exists>cdata. compressData P data = Inr cdata"
proof (cases "LZ4_compressHC P data")
  case (Pair csize stored)
  with assms have "length stored \<le> LZ4_compressBound P (length data)"
    and "0 \<le> csize" and "nat csize \<le> LZ4_compressBound P (length data)"
    by (simp_all add: codec_ok_def)
  with Pair show ?thesis
    by (simp add: compressData_def copy_to_start)
qed

lemma flushChunk_empty: "files (currentChunk b) = [] \<Longrightarrow> flushChunk P b = Inr b"
  by (simp add: flushChunk_def)

lemma flushChunk_nonempty:
  assumes "entry_sized P" and "\<forall>data. codec_ok P data" and "files (currentChunk b) \<noteq> []"
  shows "\<exists>data cdata.
           prepareChunkData P (currentChunk b) = Inr data \<and>
           compressData P data = Inr cdata \<and>
           flushChunk P b =
             Inr \<lparr>currentChunk = Chunk_new,
                  outData = outData b @
                    [WChunkHeader \<lparr>fileCount = length (files (currentChunk b)),
                                   uncompressedSize = length data,
                                   compressedSize = length cdata\<rparr>,
                     WBytes cdata],
                  statistics =
                    \<lparr>st_fileCount = st_fileCount (statistics b) + length (files (currentChunk b)),
                     st_fileSize = st_fileSize (statistics b) + of_nat (length data),
                     st_resultSize = st_resultSize (statistics b) + of_nat (length cdata)\<rparr>\<rparr>"
proof -
  obtain data where d: "prepareChunkData P (currentChunk b) = Inr data"
    using prepareChunkData_result [OF assms(1)] by blast
  obtain cdata where c: "compressData P data = Inr cdata"
    using compressData_ok assms(2) by blast
  show ?thesis
    using assms(3) d c by (simp add: flushChunk_def writeChunk_def Let_def)
qed

lemma flushChunk_succeeds:
  assumes "entry_sized P" and "\<forall>data. codec_ok P data"
  shows "\<exists>b'. flushChunk P b = Inr b' \<and> files (currentChunk b') = [] \<and>
              totalSize (currentChunk b') \<le> totalSize (currentChunk b) \<and> 
              (chunk_inv b \<longrightarrow> chunk_inv b')"
proof (cases "files (currentChunk b) = []")
  case True
  then show ?thesis by (simp add: flushChunk_empty)
next
  case False
  from flushChunk_nonempty [OF assms False] show ?thesis
    by (auto simp: Chunk_new_def chunk_inv_def dataSizeOf_def)
qed

text \<open>
  C6. With a codec that keeps its contract: \<^verbatim>\<open>flush\<close> on an empty chunk changes nothing
  (no write, same statistics). On a non-empty chunk it writes one \<^verbatim>\<open>ChunkHeader\<close> with the
  file count, the size of the body and the size of the compressed body, then the
  compressed body; it adds the three numbers to the statistics and leaves an empty chunk.
  A second \<^verbatim>\<open>flush\<close> right after changes nothing, so two flushes in a row write at most
  one chunk record. The builder run of \<^verbatim>\<open>buildProject\<close> ends with that \<^verbatim>\<open>flush\<close> on the
  state the last append left, so a trailing chunk of any size is written.
\<close>

theorem flush_semantics:
  assumes "entry_sized P" and "\<forall>data. codec_ok P data"
  shows "(files (currentChunk b) = [] \<longrightarrow> flush P b = Inr b) \<and>
         (files (currentChunk b) \<noteq> [] \<longrightarrow>
            (\<exists>data cdata.
               prepareChunkData P (currentChunk b) = Inr data \<and>
               compressData P data = Inr cdata \<and>
               flush P b =
                 Inr \<lparr>currentChunk = Chunk_new,
                      outData = outData b @
                        [WChunkHeader \<lparr>fileCount = length (files (currentChunk b)),
                                       uncompressedSize = length data,
                                       compressedSize = length cdata\<rparr>,
                         WBytes cdata],
                      statistics =
                        \<lparr>st_fileCount =
                           st_fileCount (statistics b) + length (files (currentChunk b)),
                         st_fileSize = st_fileSize (statistics b) + of_nat (length data),
                         st_resultSize = st_resultSize (statistics b) + of_nat (length cdata)\<rparr>\<rparr>)) \<and>
         (\<exists>b1. flush P b = Inr b1 \<and> files (currentChunk b1) = [] \<and> flush P b1 = Inr b1) \<and>
         (\<forall>tmp paths b0 b'.
            start fs Builder_new tmp = (True, b0) \<and> appendAll P fs b0 paths = Some (Inr b') \<longrightarrow>
            buildArchive P fs tmp paths = Some (flush P b'))"
proof -
  have d: "\<forall>tmp paths b0 b'.
            start fs Builder_new tmp = (True, b0) \<and> appendAll P fs b0 paths = Some (Inr b') \<longrightarrow>
            buildArchive P fs tmp paths = Some (flush P b')"
    by (simp add: buildArchive_def)
  have a: "files (currentChunk b) = [] \<longrightarrow> flush P b = Inr b"
    by (simp add: flush_def flushChunk_empty)
  have c: "\<exists>b1. flush P b = Inr b1 \<and> files (currentChunk b1) = [] \<and> flush P b1 = Inr b1"
    using flushChunk_succeeds [OF assms, of b] by (auto simp: flush_def flushChunk_empty)
  have b: "files (currentChunk b) \<noteq> [] \<longrightarrow>
            (\<exists>data cdata.
               prepareChunkData P (currentChunk b) = Inr data \<and>
               compressData P data = Inr cdata \<and>
               flush P b =
                 Inr \<lparr>currentChunk = Chunk_new,
                      outData = outData b @
                        [WChunkHeader \<lparr>fileCount = length (files (currentChunk b)),
                                       uncompressedSize = length data,
                                       compressedSize = length cdata\<rparr>,
                         WBytes cdata],
                      statistics =
                        \<lparr>st_fileCount =
                           st_fileCount (statistics b) + length (files (currentChunk b)),
                         st_fileSize = st_fileSize (statistics b) + of_nat (length data),
                         st_resultSize = st_resultSize (statistics b) + of_nat (length cdata)\<rparr>\<rparr>)"
    using flushChunk_nonempty [OF assms, of b] by (simp add: flush_def)
  show ?thesis
    using a b c d by blast
qed

lemma readLoop_eof: "readLoop rest EndOfFile acc = Some (acc @ rest)"
proof (induction "length rest" arbitrary: rest acc rule: less_induct)
  case less
  show ?case
  proof (cases "length rest < 65536")
    case True
    then show ?thesis by (subst readLoop.simps) simp
  next
    case False
    then have "length (drop 65536 rest) < length rest"
      by simp
    then have "readLoop (drop 65536 rest) EndOfFile (acc @ take 65536 rest) =
                 Some ((acc @ take 65536 rest) @ drop 65536 rest)"
      by (rule less)
    with False show ?thesis by (subst readLoop.simps) simp
  qed
qed

lemma readLoop_Some_eof:
  assumes "readLoop rest e acc = Some y"
  shows "e = EndOfFile"
proof (rule readLoop.raw_induct [where P = "\<lambda>rest e acc y. e = EndOfFile", OF _ assms])
  fix f :: "char list \<Rightarrow> ending \<Rightarrow> char list \<Rightarrow> char list option"
    and rest e acc y
  assume ih: "\<And>rest e acc y. f rest e acc = Some y \<Longrightarrow> e = EndOfFile"
    and step: "(if length rest < 65536
                then (if e = EndOfFile then Some (acc @ take 65536 rest)
                      else f [] e (acc @ take 65536 rest))
                else f (drop 65536 rest) e (acc @ take 65536 rest)) = Some y"
  show "e = EndOfFile"
  proof (cases "length rest < 65536")
    case True
    with step ih [of "[]" e "acc @ take 65536 rest" y] show ?thesis
      by (cases "e = EndOfFile") simp_all
  next
    case False
    with step ih [of "drop 65536 rest" e "acc @ take 65536 rest" y] show ?thesis
      by simp
  qed
qed

lemma readLoop_error: "readLoop rest ReadError acc = None"
proof (cases "readLoop rest ReadError acc")
  case None
  then show ?thesis .
next
  case (Some y)
  then have "ReadError = EndOfFile" by (rule readLoop_Some_eof)
  then show ?thesis by simp
qed

lemma path_cases:
  "unavailable fs path \<or> hangs fs path \<or> (\<exists>f. readFile fs path = Some f)"
  by (cases "openRead fs path"; cases "getFileAttributes fs path")
     (auto simp: unavailable_def hangs_def readFile_def intro: ending.exhaust)

lemma readFile_Some:
  "readFile fs path = Some f \<longleftrightarrow>
     (\<exists>stream ts sz. openRead fs path = Some stream \<and> s_end stream = EndOfFile \<and>
        getFileAttributes fs path = Some (ts, sz) \<and>
        f = \<lparr>name = path, contents = s_bytes stream, fileSize = sz, timeStamp = ts\<rparr>)"
  by (auto simp: readFile_def split: option.splits if_splits)

lemma readFile_not_hangs: "readFile fs path = Some f \<Longrightarrow> \<not> hangs fs path \<and> \<not> unavailable fs path"
  by (auto simp: readFile_Some hangs_def unavailable_def)

lemma unavailable_not_hangs: "unavailable fs path \<Longrightarrow> \<not> hangs fs path"
  by (auto simp: hangs_def unavailable_def split: option.splits)

lemma appendFile_error: "flushIfOver P b = Inl e \<Longrightarrow> appendFile P fs b path = Some (Inl e)"
  by (simp add: appendFile_def)

lemma appendFile_fail:
  "flushIfOver P b = Inr b1 \<Longrightarrow> unavailable fs path \<Longrightarrow>
   appendFile P fs b path = Some (Inr (False, b1))"
  by (auto simp: appendFile_def unavailable_def split: option.splits)

lemma appendFile_ok:
  "flushIfOver P b = Inr b1 \<Longrightarrow> readFile fs path = Some f \<Longrightarrow>
   appendFile P fs b path = Some (Inr (True, pushFile b1 f))"
  by (auto simp: appendFile_def readFile_Some pushFile_def readLoop_eof Let_def)

lemma appendFile_hangs:
  "flushIfOver P b = Inr b1 \<Longrightarrow> hangs fs path \<Longrightarrow> appendFile P fs b path = None"
  by (auto simp: appendFile_def hangs_def readLoop_error split: option.splits)


lemma flushIfOver_over:
  "kChunkSize P < totalSize (currentChunk b) \<Longrightarrow> flushIfOver P b = flushChunk P b"
  by (simp add: flushIfOver_def)


lemma flushIfOver_succeeds:
  assumes "entry_sized P" and "\<forall>data. codec_ok P data"
  shows "\<exists>b1. flushIfOver P b = Inr b1 \<and>
              length (files (currentChunk b1)) \<le> length (files (currentChunk b)) \<and>
              totalSize (currentChunk b1) \<le> totalSize (currentChunk b) \<and>
              (chunk_inv b \<longrightarrow> chunk_inv b1)"
proof (cases "kChunkSize P < totalSize (currentChunk b)")
  case True
  with flushChunk_succeeds [OF assms, of b] show ?thesis
    by (auto simp: flushIfOver_def)
next
  case False
  then show ?thesis by (simp add: flushIfOver_def)
qed


lemma appendFile_outcome:
  assumes "entry_sized P" and "\<forall>data. codec_ok P data"
  shows "\<exists>b1. flushIfOver P b = Inr b1 \<and>
           length (files (currentChunk b1)) \<le> length (files (currentChunk b)) \<and>
           totalSize (currentChunk b1) \<le> totalSize (currentChunk b) \<and>
           (chunk_inv b \<longrightarrow> chunk_inv b1) \<and>
           (unavailable fs path \<longrightarrow> appendFile P fs b path = Some (Inr (False, b1))) \<and>
           (hangs fs path \<longrightarrow> appendFile P fs b path = None) \<and>
           (\<forall>f. readFile fs path = Some f \<longrightarrow>
              appendFile P fs b path = Some (Inr (True, pushFile b1 f)))"
proof -
  obtain b1 where b1: "flushIfOver P b = Inr b1"
    and le: "length (files (currentChunk b1)) \<le> length (files (currentChunk b))"
            "totalSize (currentChunk b1) \<le> totalSize (currentChunk b)"
            "chunk_inv b \<longrightarrow> chunk_inv b1"
    using flushIfOver_succeeds [OF assms, of b] by blast
  show ?thesis
    using b1 le by (auto simp: appendFile_fail appendFile_hangs appendFile_ok)
qed



lemma appendFile_no_error:
  assumes "entry_sized P" and "\<forall>data. codec_ok P data"
  shows "appendFile P fs b path \<noteq> Some (Inl e)"
  using appendFile_outcome [OF assms, of b fs path] path_cases [of fs path]
  by auto



text \<open>
  C9. \<^verbatim>\<open>appendFile\<close> is to return false when the file cannot be opened or its attributes
  cannot be read, and otherwise to append the complete file and return true;
  \<^verbatim>\<open>builderAppend\<close> reports a false result as \<^verbatim>\<open>Error reading file\<close>. The read loop tests
  \<^verbatim>\<open>eof()\<close> only. A path that opens and has attributes but whose read fails, such as a
  directory, never sets \<^verbatim>\<open>eofbit\<close>: the call neither returns false nor appends anything,
  it does not return, and neither does the build that lists the path.
\<close>

theorem appendFile_hangs_on_failed_read:
  "openRead sampleFS ''dir'' = Some \<lparr>s_bytes = [], s_end = ReadError\<rparr> \<and>
   getFileAttributes sampleFS ''dir'' = Some (50, 4096) \<and>
   appendFile sampleParams sampleFS Builder_new ''dir'' = None \<and>
   buildArchive sampleParams sampleFS ''out'' [''dir''] = None"
proof -
  have o: "openRead sampleFS ''dir'' = Some \<lparr>s_bytes = [], s_end = ReadError\<rparr>"
    and a: "getFileAttributes sampleFS ''dir'' = Some (50, 4096)"
    by (simp_all add: sampleFS_def)
  have r: "readLoop [] ReadError [] = None"
    by (rule readLoop_error)
  have f: "flushIfOver sampleParams b = Inr b" if "totalSize (currentChunk b) = 0" for b
    using that by (simp add: flushIfOver_def)
  have h: "appendFile sampleParams sampleFS b ''dir'' = None" if "totalSize (currentChunk b) = 0" for b
    using f [OF that] o a r by (simp add: appendFile_def)
  have "appendFile sampleParams sampleFS Builder_new ''dir'' = None"
    by (rule h) (simp add: Builder_new_def Chunk_new_def)
  moreover have "openWrite sampleFS ''out''"
    by (simp add: sampleFS_def)
  then have "buildArchive sampleParams sampleFS ''out'' [''dir''] = None"
    by (simp add: buildArchive_def start_def h Builder_new_def Chunk_new_def)
  ultimately show ?thesis
    using o a by simp
qed

text \<open>
  C10. The threshold check comes before the file is opened. When the chunk is over the
  threshold and the file does not open or has no attributes, \<^verbatim>\<open>appendFile\<close> returns false and yet the builder
  has changed: the chunk is empty, the record of the old chunk is written, and the
  statistics count it.
\<close>

theorem appendFile_flushes_before_open:
  assumes "entry_sized P" and "\<forall>data. codec_ok P data"
    and "kChunkSize P < totalSize (currentChunk b)" and "files (currentChunk b) \<noteq> []"
    and "openRead fs path = None \<or> getFileAttributes fs path = None"
  shows "\<exists>b' data cdata.
           appendFile P fs b path = Some (Inr (False, b')) \<and> b' \<noteq> b \<and>
           files (currentChunk b') = [] \<and>
           prepareChunkData P (currentChunk b) = Inr data \<and>
           compressData P data = Inr cdata \<and>
           outData b' = outData b @
             [WChunkHeader \<lparr>fileCount = length (files (currentChunk b)),
                            uncompressedSize = length data,
                            compressedSize = length cdata\<rparr>,
              WBytes cdata] \<and>
           statistics b' =
             \<lparr>st_fileCount = st_fileCount (statistics b) + length (files (currentChunk b)),
              st_fileSize = st_fileSize (statistics b) + of_nat (length data),
              st_resultSize = st_resultSize (statistics b) + of_nat (length cdata)\<rparr>"
proof -
  from flushChunk_nonempty [OF assms(1,2,4)]
  obtain data cdata b1 where d: "prepareChunkData P (currentChunk b) = Inr data"
    and c: "compressData P data = Inr cdata"
    and b1: "b1 = \<lparr>currentChunk = Chunk_new,
                  outData = outData b @
                    [WChunkHeader \<lparr>fileCount = length (files (currentChunk b)),
                                   uncompressedSize = length data,
                                   compressedSize = length cdata\<rparr>,
                     WBytes cdata],
                  statistics =
                    \<lparr>st_fileCount = st_fileCount (statistics b) + length (files (currentChunk b)),
                     st_fileSize = st_fileSize (statistics b) + of_nat (length data),
                     st_resultSize = st_resultSize (statistics b) + of_nat (length cdata)\<rparr>\<rparr>"
    and f: "flushChunk P b = Inr b1"
    by blast
  have "flushIfOver P b = Inr b1"
    using f assms(3) by (simp add: flushIfOver_over)
  moreover have "unavailable fs path"
    using assms(5) by (simp add: unavailable_def)
  ultimately have r: "appendFile P fs b path = Some (Inr (False, b1))"
    by (rule appendFile_fail)
  have "files (currentChunk b1) = []"
    by (simp add: b1 Chunk_new_def)
  then have "b1 \<noteq> b"
    using assms(4) by auto
  with r d c b1 show ?thesis
    by (simp add: Chunk_new_def)
qed




lemma sampleParams_codec_ok: "\<forall>data. codec_ok sampleParams data"
  by (simp add: codec_ok_def sampleParams_def storedCodec_def)

lemma sample_compress: "compressData sampleParams data = Inr data"
  by (simp add: compressData_def sampleParams_def storedCodec_def copy_to_start resize_def)

lemma prepareChunkData_length:
  assumes "entry_sized P" and "prepareChunkData P chunk = Inr data"
  shows "length data =
           entrySize P * length (files chunk) + namesSize (files chunk) + dataSizeOf (files chunk)"
proof -
  have "length (concat (map (encodeEntry P)
            (map (expectedEntry (entrySize P) (files chunk)) [0..<length (files chunk)]))) =
         length (files chunk) * entrySize P"
    using length_concat_entries [OF assms(1),
        of "map (expectedEntry (entrySize P) (files chunk)) [0..<length (files chunk)]"]
    by (simp del: map_map)
  moreover have "data =
      concat (map (encodeEntry P)
            (map (expectedEntry (entrySize P) (files chunk)) [0..<length (files chunk)])) @
      concat (map name (files chunk)) @ concat (map contents (files chunk))"
    using assms(2) prepareChunkData_result [OF assms(1), of chunk] by simp
  ultimately show ?thesis
    by (simp add: length_concat_names length_concat_contents del: map_map)
qed




lemma sampleBuilder_body:
  assumes "prepareChunkData sampleParams (currentChunk sampleBuilder) = Inr data"
  shows "length data = 88"
  using prepareChunkData_length [OF sampleParams_entry_sized assms]
  by (simp add: sampleParams_def sampleBuilder_def sampleFile_def namesSize_def dataSizeOf_def)

text \<open>A new builder, and the builder with two files in its chunk.\<close>

theorem flush_semantics_witness:
  "entry_sized sampleParams \<and> (\<forall>data. codec_ok sampleParams data) \<and>
   flush sampleParams Builder_new = Inr Builder_new \<and>
   (\<exists>cdata. flush sampleParams sampleBuilder =
      Inr \<lparr>currentChunk = Chunk_new,
           outData =
             [WFileHeader,
              WChunkHeader \<lparr>fileCount = 2, uncompressedSize = 88, compressedSize = 88\<rparr>,
              WBytes cdata],
           statistics = \<lparr>st_fileCount = 2, st_fileSize = 88, st_resultSize = 88\<rparr>\<rparr>)"
proof -
  note sem = flush_semantics [OF sampleParams_entry_sized sampleParams_codec_ok]
  have e: "flush sampleParams Builder_new = Inr Builder_new"
    using sem [of Builder_new sampleFS] by (simp add: Builder_new_def Chunk_new_def)
  have ne: "files (currentChunk sampleBuilder) \<noteq> []"
    by (simp add: sampleBuilder_def)
  with sem [of sampleBuilder sampleFS]
  obtain data cdata where d: "prepareChunkData sampleParams (currentChunk sampleBuilder) = Inr data"
    and c: "compressData sampleParams data = Inr cdata"
    and f: "flush sampleParams sampleBuilder =
                 Inr \<lparr>currentChunk = Chunk_new,
                      outData = outData sampleBuilder @
                        [WChunkHeader \<lparr>fileCount = length (files (currentChunk sampleBuilder)),
                                       uncompressedSize = length data,
                                       compressedSize = length cdata\<rparr>,
                         WBytes cdata],
                      statistics =
                        \<lparr>st_fileCount =
                           st_fileCount (statistics sampleBuilder) +
                           length (files (currentChunk sampleBuilder)),
                         st_fileSize = st_fileSize (statistics sampleBuilder) + of_nat (length data),
                         st_resultSize =
                           st_resultSize (statistics sampleBuilder) + of_nat (length cdata)\<rparr>\<rparr>"
    by blast
  have l: "length data = 88"
    using d by (rule sampleBuilder_body)
  have "cdata = data"
    using c by (simp add: sample_compress)
  with f l have "flush sampleParams sampleBuilder =
      Inr \<lparr>currentChunk = Chunk_new,
           outData =
             [WFileHeader,
              WChunkHeader \<lparr>fileCount = 2, uncompressedSize = 88, compressedSize = 88\<rparr>,
              WBytes cdata],
           statistics = \<lparr>st_fileCount = 2, st_fileSize = 88, st_resultSize = 88\<rparr>\<rparr>"
    by (simp add: sampleBuilder_def)
  with e show ?thesis
    using sampleParams_entry_sized sampleParams_codec_ok by blast
qed

text \<open>The builder with 20 bytes in its chunk, threshold 15, and a path that does not open.\<close>

theorem appendFile_flushes_before_open_witness:
  "entry_sized sampleParams \<and> (\<forall>data. codec_ok sampleParams data) \<and>
   kChunkSize sampleParams < totalSize (currentChunk sampleBuilder) \<and>
   files (currentChunk sampleBuilder) \<noteq> [] \<and>
   openRead sampleFS ''missing'' = None \<and>
   (\<exists>b' cdata. appendFile sampleParams sampleFS sampleBuilder ''missing'' = Some (Inr (False, b')) \<and>
      b' \<noteq> sampleBuilder \<and> files (currentChunk b') = [] \<and>
      outData b' =
        [WFileHeader,
         WChunkHeader \<lparr>fileCount = 2, uncompressedSize = 88, compressedSize = 88\<rparr>,
         WBytes cdata] \<and>
      statistics b' = \<lparr>st_fileCount = 2, st_fileSize = 88, st_resultSize = 88\<rparr>)"
proof -
  have over: "kChunkSize sampleParams < totalSize (currentChunk sampleBuilder)"
    by (simp add: sampleParams_def sampleBuilder_def)
  have ne: "files (currentChunk sampleBuilder) \<noteq> []"
    by (simp add: sampleBuilder_def)
  have miss: "openRead sampleFS ''missing'' = None"
    by (simp add: sampleFS_def)
  then have miss': "openRead sampleFS ''missing'' = None \<or>
      getFileAttributes sampleFS ''missing'' = None"
    by simp
  from appendFile_flushes_before_open
         [OF sampleParams_entry_sized sampleParams_codec_ok over ne miss']
  obtain b' data cdata where
    r: "appendFile sampleParams sampleFS sampleBuilder ''missing'' = Some (Inr (False, b'))"
       "b' \<noteq> sampleBuilder" "files (currentChunk b') = []"
    and d: "prepareChunkData sampleParams (currentChunk sampleBuilder) = Inr data"
    and c: "compressData sampleParams data = Inr cdata"
    and o: "outData b' = outData sampleBuilder @
             [WChunkHeader \<lparr>fileCount = length (files (currentChunk sampleBuilder)),
                            uncompressedSize = length data,
                            compressedSize = length cdata\<rparr>,
              WBytes cdata]"
    and st: "statistics b' =
             \<lparr>st_fileCount = st_fileCount (statistics sampleBuilder) +
                 length (files (currentChunk sampleBuilder)),
              st_fileSize = st_fileSize (statistics sampleBuilder) + of_nat (length data),
              st_resultSize = st_resultSize (statistics sampleBuilder) + of_nat (length cdata)\<rparr>"
    by blast
  have l: "length data = 88"
    using d by (rule sampleBuilder_body)
  have cd: "cdata = data"
    using c by (simp add: sample_compress)
  have o': "outData b' =
        [WFileHeader,
         WChunkHeader \<lparr>fileCount = 2, uncompressedSize = 88, compressedSize = 88\<rparr>,
         WBytes cdata]"
    using o l cd by (simp add: sampleBuilder_def)
  have st': "statistics b' = \<lparr>st_fileCount = 2, st_fileSize = 88, st_resultSize = 88\<rparr>"
    using st l cd by (simp add: sampleBuilder_def)
  show ?thesis
    using over ne miss r o' st' sampleParams_entry_sized sampleParams_codec_ok by blast
qed

subsection \<open>File selection\<close>

lemma orLoop_append: "orLoop ps (re @ x) = re @ orLoop ps x"
  by (induction ps arbitrary: x) simp_all

lemma orLoop_alternation: "orLoop ps (CHR ''('' # p @ '')'') = alternation (p # ps)"
proof (induction ps arbitrary: p)
  case Nil
  show ?case by simp
next
  case (Cons q ps)
  have "orLoop (q # ps) (CHR ''('' # p @ '')'') =
          orLoop ps ((CHR ''('' # p @ '')|'') @ (CHR ''('' # q @ '')''))"
    by simp
  also have "\<dots> = (CHR ''('' # p @ '')|'') @ orLoop ps (CHR ''('' # q @ '')'')"
    by (rule orLoop_append)
  also have "\<dots> = alternation (p # q # ps)"
    by (simp add: Cons.IH)
  finally show ?case .
qed

lemma constructOrRE_eq:
  "constructOrRE re_ok list =
     (if list = [] then Inr None
      else if re_ok (orRE list) then Inr (Some (orRE list)) else Inl Fatal)"
  by (cases list) (simp_all add: constructOrRE_def orRE_def orLoop_alternation Let_def)

text \<open>
  C8. \<^verbatim>\<open>constructOrRE\<close> returns the null pointer exactly for the empty list; for any other
  list it builds the case-insensitive object for \<^verbatim>\<open>(p1)|(p2)|...\<close> (fatal when the pattern
  does not compile). With the two objects built from the include and the exclude list, a
  path is acceptable if and only if the include list is empty or the path matches the
  include alternation, and it is not the case that the exclude list is non-empty and the
  path matches the exclude alternation.
\<close>

theorem isFileAcceptable_predicate:
  "(constructOrRE re_ok list = Inr None \<longleftrightarrow> list = []) \<and>
   (list \<noteq> [] \<and> re_ok (orRE list) \<longrightarrow> constructOrRE re_ok list = Inr (Some (orRE list))) \<and>
   (list \<noteq> [] \<and> \<not> re_ok (orRE list) \<longrightarrow> constructOrRE re_ok list = Inl Fatal) \<and>
   (\<forall>incl excl.
      constructOrRE re_ok includes = Inr incl \<and> constructOrRE re_ok excludes = Inr excl \<longrightarrow>
      isFileAcceptable partialMatch incl excl path =
        ((includes = [] \<or> partialMatch path (orRE includes)) \<and>
         \<not> (excludes \<noteq> [] \<and> partialMatch path (orRE excludes))))"
  by (auto simp: constructOrRE_eq isFileAcceptable_def split: if_splits)

lemma scanLoop_eq:
  "scanLoop traverse accept roots acc =
     acc @ concat (map (\<lambda>r. filter accept (traverse r)) roots)"
  by (induction roots arbitrary: acc) simp_all

lemma distinct_remdups_adj_of_sorted:
  "sorted xs \<Longrightarrow> distinct (remdups_adj (xs :: 'a :: linorder list))"
proof (induction xs rule: remdups_adj.induct)
  case 1
  show ?case by simp
next
  case (2 x)
  show ?case by simp
next
  case (3 x y xs)
  show ?case
  proof (cases "x = y")
    case True
    with 3 show ?thesis by simp
  next
    case False
    from "3.prems" have "x \<le> y" and "\<forall>z\<in>set xs. y \<le> z" and "sorted (y # xs)"
      by simp_all
    with False have "x \<notin> set (y # xs)"
      by auto
    with False "3.IH"(2) \<open>sorted (y # xs)\<close> show ?thesis
      by simp
  qed
qed

lemma count_list_distinct:
  "distinct xs \<Longrightarrow> p \<in> set xs \<Longrightarrow> count_list xs p = 1"
  by (induction xs) auto

lemma sortUnique_sorted: "sorted (sortUnique xs)"
  by (simp add: sortUnique_def)

lemma sortUnique_distinct: "distinct (sortUnique xs)"
  by (simp add: sortUnique_def distinct_remdups_adj_of_sorted)

lemma sortUnique_set: "set (sortUnique xs) = set xs"
  by (simp add: sortUnique_def)

lemma sortUnique_cong: "set xs = set ys \<Longrightarrow> sortUnique xs = sortUnique ys"
  by (rule sorted_distinct_set_unique)
     (simp_all add: sortUnique_sorted sortUnique_distinct sortUnique_set)

lemma sortUnique_once: "p \<in> set xs \<Longrightarrow> count_list (sortUnique xs) p = 1"
  by (rule count_list_distinct) (simp_all add: sortUnique_distinct sortUnique_set)

lemma scanLoop_set_cong:
  assumes "\<forall>r. mset (t' r) = mset (t r)"
  shows "set (scanLoop t' accept roots acc) = set (scanLoop t accept roots acc)"
proof -
  have "set (t' r) = set (t r)" for r
    using assms by (metis set_mset_mset)
  then show ?thesis
    by (simp add: scanLoop_eq)
qed

text \<open>
  C7. The list handed to the builder is sorted and has no duplicates; its elements are
  the explicit files and the accepted paths of the scans. Every path of the list, so every
  explicit file that a scan reaches as well, occurs exactly once. Scans that deliver the
  same candidates in another order give the same list.
\<close>

theorem selectFiles_sorted_unique:
  "(\<forall>result. selectFiles re_ok partialMatch traverse pr = Inr result \<longrightarrow>
      sorted result \<and> distinct result \<and>
      (\<exists>incl excl.
         constructOrRE re_ok (includeSet pr) = Inr incl \<and>
         constructOrRE re_ok (excludeSet pr) = Inr excl \<and>
         set result =
           set (fileSet pr) \<union>
           {p. \<exists>root \<in> set (pathSet pr).
                 p \<in> set (traverse root) \<and> isFileAcceptable partialMatch incl excl p}) \<and>
      (\<forall>p \<in> set result. count_list result p = 1) \<and>
      (\<forall>p \<in> set (fileSet pr). count_list result p = 1)) \<and>
   ((\<forall>root. mset (traverse' root) = mset (traverse root)) \<longrightarrow>
      selectFiles re_ok partialMatch traverse' pr = selectFiles re_ok partialMatch traverse pr)"
proof (intro conjI allI impI)
  fix result
  assume r: "selectFiles re_ok partialMatch traverse pr = Inr result"
  then obtain incl excl where i: "constructOrRE re_ok (includeSet pr) = Inr incl"
    and e: "constructOrRE re_ok (excludeSet pr) = Inr excl"
    and res: "result = sortUnique (scanLoop traverse (isFileAcceptable partialMatch incl excl)
                   (pathSet pr) (fileSet pr))"
    by (auto simp: selectFiles_def split: sum.splits)
  show "sorted result" by (simp add: res sortUnique_sorted)
  show "distinct result" by (simp add: res sortUnique_distinct)
  have s: "set result =
           set (fileSet pr) \<union>
           {p. \<exists>root \<in> set (pathSet pr).
                 p \<in> set (traverse root) \<and> isFileAcceptable partialMatch incl excl p}"
    by (auto simp: res sortUnique_set scanLoop_eq)
  with i e show "\<exists>incl excl.
         constructOrRE re_ok (includeSet pr) = Inr incl \<and>
         constructOrRE re_ok (excludeSet pr) = Inr excl \<and>
         set result =
           set (fileSet pr) \<union>
           {p. \<exists>root \<in> set (pathSet pr).
                 p \<in> set (traverse root) \<and> isFileAcceptable partialMatch incl excl p}"
    by blast
  show "\<forall>p \<in> set result. count_list result p = 1"
    using \<open>distinct result\<close> by (simp add: count_list_distinct)
  show "\<forall>p \<in> set (fileSet pr). count_list result p = 1"
    using \<open>distinct result\<close> s by (simp add: count_list_distinct)
next
  assume "\<forall>root. mset (traverse' root) = mset (traverse root)"
  then have "sortUnique (scanLoop traverse' accept (pathSet pr) (fileSet pr)) =
             sortUnique (scanLoop traverse accept (pathSet pr) (fileSet pr))" for accept
    by (intro sortUnique_cong scanLoop_set_cong)
  then show "selectFiles re_ok partialMatch traverse' pr = selectFiles re_ok partialMatch traverse pr"
    by (simp add: selectFiles_def split: sum.splits)
qed

text \<open>Include \<^verbatim>\<open>src\<close>, exclude \<^verbatim>\<open>tmp\<close> and \<^verbatim>\<open>bak\<close>; and no filters at all.\<close>

theorem isFileAcceptable_predicate_witness:
  "constructOrRE (\<lambda>r. True) [''tmp'', ''bak''] =
     Inr (Some \<lparr>re_pattern = ''(tmp)|(bak)'', re_case_sensitive = False\<rparr>) \<and>
   constructOrRE (\<lambda>r. False) [''tmp'', ''bak''] = Inl Fatal \<and>
   isFileAcceptable sampleMatch (Some (orRE [''src''])) (Some (orRE [''tmp'', ''bak''])) ''src/a.c'' \<and>
   \<not> isFileAcceptable sampleMatch (Some (orRE [''src''])) (Some (orRE [''tmp'', ''bak''])) ''src/a.tmp'' \<and>
   \<not> isFileAcceptable sampleMatch (Some (orRE [''src''])) (Some (orRE [''tmp'', ''bak''])) ''doc/a.c'' \<and>
   isFileAcceptable sampleMatch None None ''doc/a.tmp''"
proof -
  have a: "constructOrRE (\<lambda>r. True) [''tmp'', ''bak''] =
     Inr (Some \<lparr>re_pattern = ''(tmp)|(bak)'', re_case_sensitive = False\<rparr>)"
    using isFileAcceptable_predicate [of "\<lambda>r. True" "[''tmp'', ''bak'']"]
    by (simp add: orRE_def)
  have b: "constructOrRE (\<lambda>r. False) [''tmp'', ''bak''] = Inl Fatal"
    using isFileAcceptable_predicate [of "\<lambda>r. False" "[''tmp'', ''bak'']"]
    by simp
  have i: "constructOrRE (\<lambda>r. True) [''src''] = Inr (Some (orRE [''src'']))"
    using isFileAcceptable_predicate [of "\<lambda>r. True" "[''src'']"] by simp
  have e: "constructOrRE (\<lambda>r. True) [''tmp'', ''bak''] = Inr (Some (orRE [''tmp'', ''bak'']))"
    using isFileAcceptable_predicate [of "\<lambda>r. True" "[''tmp'', ''bak'']"] by simp
  have n: "constructOrRE (\<lambda>r. True) [] = Inr None"
    using isFileAcceptable_predicate [of "\<lambda>r. True" "[]"] by simp
  note p = isFileAcceptable_predicate
             [of "\<lambda>r. True" "[]" "[''src'']" "[''tmp'', ''bak'']" sampleMatch, THEN conjunct2,
              THEN conjunct2, THEN conjunct2, rule_format, OF conjI, OF i e]
  note q = isFileAcceptable_predicate
             [of "\<lambda>r. True" "[]" "[]" "[]" sampleMatch, THEN conjunct2,
              THEN conjunct2, THEN conjunct2, rule_format, OF conjI, OF n n]
  have c1: "isFileAcceptable sampleMatch (Some (orRE [''src''])) (Some (orRE [''tmp'', ''bak''])) ''src/a.c''"
    using p by (simp add: orRE_def sampleMatch_def)
  have c2: "\<not> isFileAcceptable sampleMatch (Some (orRE [''src''])) (Some (orRE [''tmp'', ''bak''])) ''src/a.tmp''"
    using p by (simp add: orRE_def sampleMatch_def)
  have c3: "\<not> isFileAcceptable sampleMatch (Some (orRE [''src''])) (Some (orRE [''tmp'', ''bak''])) ''doc/a.c''"
    using p by (simp add: orRE_def sampleMatch_def)
  have c4: "isFileAcceptable sampleMatch None None ''doc/a.tmp''"
    by (simp add: q)
  show ?thesis
    using a b c1 c2 c3 c4 by blast
qed

text \<open>
  \<^verbatim>\<open>src/b.c\<close> is an explicit file and is found by the scan; the two scan orders give the same
  three paths.
\<close>

theorem selectFiles_sorted_unique_witness:
  "(\<forall>root. mset (sampleScan' root) = mset (sampleScan root)) \<and>
   selectFiles (\<lambda>r. True) sampleMatch sampleScan sampleProject =
     Inr [''README'', ''src/a.c'', ''src/b.c''] \<and>
   selectFiles (\<lambda>r. True) sampleMatch sampleScan' sampleProject =
     Inr [''README'', ''src/a.c'', ''src/b.c''] \<and>
   count_list [''README'', ''src/a.c'', ''src/b.c''] ''src/b.c'' = 1"
proof -
  have perm: "\<forall>root. mset (sampleScan' root) = mset (sampleScan root)"
    by (simp add: sampleScan_def sampleScan'_def)
  have ex: "selectFiles (\<lambda>r. True) sampleMatch sampleScan sampleProject =
     Inr (sortUnique [''src/b.c'', ''README'', ''src/b.c'', ''src/a.c''])"
    by (simp add: selectFiles_def constructOrRE_def sampleProject_def sampleScan_def
          isFileAcceptable_def)
  note sel = selectFiles_sorted_unique
               [of "\<lambda>r. True" sampleMatch sampleScan sampleProject sampleScan']
  from sel ex have srt: "sorted (sortUnique [''src/b.c'', ''README'', ''src/b.c'', ''src/a.c''])"
    and dst: "distinct (sortUnique [''src/b.c'', ''README'', ''src/b.c'', ''src/a.c''])"
    by simp_all
  from sel ex have cnt: "\<forall>p \<in> set (fileSet sampleProject).
      count_list (sortUnique [''src/b.c'', ''README'', ''src/b.c'', ''src/a.c'']) p = 1"
    by simp
  have st: "set (sortUnique [''src/b.c'', ''README'', ''src/b.c'', ''src/a.c'']) =
            set [''README'', ''src/a.c'', ''src/b.c'']"
    by (auto simp: sortUnique_def)
  have "sorted [''README'', ''src/a.c'', ''src/b.c''] \<and> distinct [''README'', ''src/a.c'', ''src/b.c'']"
    by simp
  with srt dst st have val: "sortUnique [''src/b.c'', ''README'', ''src/b.c'', ''src/a.c''] =
      [''README'', ''src/a.c'', ''src/b.c'']"
    by (intro sorted_distinct_set_unique) simp_all
  from sel perm have "selectFiles (\<lambda>r. True) sampleMatch sampleScan' sampleProject =
      selectFiles (\<lambda>r. True) sampleMatch sampleScan sampleProject"
    by blast
  with ex val cnt perm show ?thesis
    by (simp add: sampleProject_def)
qed

end
